theory Spec2Isabelle
  imports Main "HOL-Library.Word"
begin

section \<open>JavaScript values\<close>

text \<open>
  The values that flow through the client: what \<^verbatim>\<open>JSON.parse\<close> returns, plus
  \<^verbatim>\<open>undefined\<close>, which is what reading a missing property gives. Strings are
  sequences of 8-bit characters (code units below 256). A number is carried as a
  literal that denotes it. Which double a literal denotes is decided by the platform,
  and the client's code observes two things of that double: whether it is zero (the
  test \<^verbatim>\<open>if (x)\<close>), and the text that \<^verbatim>\<open>JSON.stringify\<close> writes for it. Both
  are parameters of the functions below, as functions of the literal (\<open>is_zero\<close> and
  \<open>nt\<close>); the operations of the client take them from the platform. So a literal
  that underflows, as \<^verbatim>\<open>1e-400\<close>, is zero where the platform says so, and a literal
  that overflows to \<^verbatim>\<open>Infinity\<close>, as \<^verbatim>\<open>1e400\<close>, is written as \<^verbatim>\<open>null\<close>. An
  object is the list of its
  properties in insertion order (the platform moves integer-like keys to the front;
  the client reads no such key).
\<close>

datatype jsval =
    JUndefined
  | JNull
  | JBool bool
  | JNum string
  | JStr string
  | JArr "jsval list"
  | JObj "(string \<times> jsval) list"

datatype error =
    TypeError
  | NotConnected
  | CapabilityUnavailable
  | Failure string

text \<open>
  \<^verbatim>\<open>message.k\<close>: reading a property of \<^verbatim>\<open>null\<close> or \<^verbatim>\<open>undefined\<close> throws a
  TypeError; a missing property reads as \<^verbatim>\<open>undefined\<close>. The properties read by the
  source (\<^verbatim>\<open>cmd\<close>, \<^verbatim>\<open>status\<close>, \<^verbatim>\<open>session_token\<close>, \<^verbatim>\<open>authenticated\<close>,
  \<^verbatim>\<open>email\<close>, \<^verbatim>\<open>username\<close>) are not defined on the prototypes of strings,
  numbers, booleans and arrays, so they read as \<^verbatim>\<open>undefined\<close> there.
\<close>

fun nullish :: "jsval \<Rightarrow> bool" where
  "nullish JUndefined = True"
| "nullish JNull = True"
| "nullish _ = False"

fun field :: "jsval \<Rightarrow> string \<Rightarrow> jsval" where
  "field (JObj fs) k = (case map_of fs k of None \<Rightarrow> JUndefined | Some v \<Rightarrow> v)"
| "field _ k = JUndefined"

text \<open>
  Truthiness, as tested by \<^verbatim>\<open>if (x)\<close>. A number is falsy when it is zero (a number
  that comes from JSON text is never \<^verbatim>\<open>NaN\<close>).
\<close>

fun truthy :: "(string \<Rightarrow> bool) \<Rightarrow> jsval \<Rightarrow> bool" where
  "truthy is_zero JUndefined = False"
| "truthy is_zero JNull = False"
| "truthy is_zero (JBool b) = b"
| "truthy is_zero (JNum n) = (\<not> is_zero n)"
| "truthy is_zero (JStr s) = (s \<noteq> [])"
| "truthy is_zero (JArr _) = True"
| "truthy is_zero (JObj _) = True"

text \<open>\<^verbatim>\<open>charCodeAt\<close>: the code unit of a character.\<close>

definition code :: "char \<Rightarrow> nat" where
  "code c = of_char c"

section \<open>JSON text\<close>

text \<open>
  \<^verbatim>\<open>JSON.parse\<close> and \<^verbatim>\<open>JSON.stringify\<close> belong to the platform, not to the
  repository. They are modelled here after the JSON grammar (ECMA-404), over texts of
  8-bit characters: \<open>json_parse\<close> gives \<open>None\<close> where \<^verbatim>\<open>JSON.parse\<close> throws a
  SyntaxError. An escape \<^verbatim>\<open>\uXXXX\<close> above \<^verbatim>\<open>00FF\<close> denotes a code unit outside the
  8-bit alphabet; a text with such an escape is outside the model, and \<open>json_parse\<close>
  gives \<open>None\<close> for it.
\<close>

subsection \<open>Tokens\<close>

datatype token =
    LBrace | RBrace | LBracket | RBracket | Comma | Colon
  | TString string | TNumber string | TTrue | TFalse | TNull

definition json_ws :: "char \<Rightarrow> bool" where
  "json_ws c = (c = CHR '' '' \<or> c = CHR 0x09 \<or> c = CHR 0x0A \<or> c = CHR 0x0D)"

definition digit :: "char \<Rightarrow> bool" where
  "digit c = (0x30 \<le> code c \<and> code c \<le> 0x39)"

definition hex_value :: "char \<Rightarrow> nat option" where
  "hex_value c =
     (if digit c then Some (code c - 0x30)
      else if 0x61 \<le> code c \<and> code c \<le> 0x66 then Some (code c - 0x61 + 10)
      else if 0x41 \<le> code c \<and> code c \<le> 0x46 then Some (code c - 0x41 + 10)
      else None)"

definition unescape :: "char \<Rightarrow> char option" where
  "unescape c =
     (if c = CHR 0x22 then Some (CHR 0x22)
      else if c = CHR 0x5C then Some (CHR 0x5C)
      else if c = CHR ''/'' then Some CHR ''/''
      else if c = CHR ''b'' then Some (CHR 0x08)
      else if c = CHR ''f'' then Some (CHR 0x0C)
      else if c = CHR ''n'' then Some (CHR 0x0A)
      else if c = CHR ''r'' then Some (CHR 0x0D)
      else if c = CHR ''t'' then Some (CHR 0x09)
      else None)"

text \<open>
  One character of a string literal: a plain character, or an escape sequence. Control
  characters must be escaped. Result: the character denoted and the text after it.
\<close>

fun string_char :: "string \<Rightarrow> (char \<times> string) option" where
  "string_char [] = None"
| "string_char (c # cs) =
     (if c = CHR 0x5C then
        (case cs of
           [] \<Rightarrow> None
         | e # cs1 \<Rightarrow>
             if e = CHR ''u'' then
               (case cs1 of
                  h1 # h2 # h3 # h4 # cs2 \<Rightarrow>
                    (case (hex_value h1, hex_value h2, hex_value h3, hex_value h4) of
                       (Some a, Some b, Some c, Some d) \<Rightarrow>
                         if a = 0 \<and> b = 0 then Some (char_of (16 * c + d), cs2) else None
                     | _ \<Rightarrow> None)
                | _ \<Rightarrow> None)
             else map_option (\<lambda>x. (x, cs1)) (unescape e))
      else if code c < 0x20 then None
      else Some (c, cs))"

lemma string_char_shorter:
  "string_char s = Some (x, rest) \<Longrightarrow> length rest < length s"
  by (cases s) (auto split: if_splits list.splits option.splits)

text \<open>
  The text after an opening quote: the string denoted, and the text after the closing
  quote.
\<close>

function lex_string :: "string \<Rightarrow> (string \<times> string) option" where
  "lex_string [] = None"
| "lex_string (c # cs) =
     (if c = CHR 0x22 then Some ([], cs)
      else case string_char (c # cs) of
             None \<Rightarrow> None
           | Some (x, rest) \<Rightarrow> map_option (apfst ((#) x)) (lex_string rest))"
  by pat_completeness auto
termination
proof (relation "measure length")
  show "wf (measure length)" by simp
next
  fix c cs x2 x y
  assume "string_char (c # cs) = Some x2" "(x, y) = x2"
  then have "length y < length (c # cs)"
    using string_char_shorter [of "c # cs" x y] by simp
  then show "(y, c # cs) \<in> measure length" by simp
qed

lemma lex_string_shorter:
  "lex_string s = Some (v, rest) \<Longrightarrow> length rest < length s"
proof (induction s arbitrary: v rest rule: lex_string.induct)
  case 1
  then show ?case by simp
next
  case (2 c cs)
  show ?case
  proof (cases "c = CHR 0x22")
    case True
    with 2 show ?thesis by auto
  next
    case False
    with "2.prems" obtain x r v' where sc: "string_char (c # cs) = Some (x, r)"
      and ls: "lex_string r = Some (v', rest)"
      by (auto split: option.splits prod.splits)
    have "length rest < length r"
      using "2.IH" [OF False sc refl ls] .
    moreover have "length r < length (c # cs)"
      using sc by (rule string_char_shorter)
    ultimately show ?thesis by simp
  qed
qed

text \<open>
  A number literal: an optional minus, an integer part without a leading zero, an
  optional fraction, an optional exponent. The tokenizer takes the longest run of number
  characters and checks it against this grammar; a run that is not a number is an error,
  as it is for the platform, since no number character can follow a complete number.
\<close>

definition number_char :: "char \<Rightarrow> bool" where
  "number_char c = (digit c \<or> c \<in> set ''+-.eE'')"

definition int_part :: "string \<Rightarrow> bool" where
  "int_part s = (s \<noteq> [] \<and> list_all digit s \<and> (hd s = CHR ''0'' \<longrightarrow> length s = 1))"

definition exp_part :: "string \<Rightarrow> bool" where
  "exp_part s =
     (case s of
        [] \<Rightarrow> True
      | e # r \<Rightarrow> (e = CHR ''e'' \<or> e = CHR ''E'') \<and>
          (let ds = (case r of [] \<Rightarrow> [] | sg # r' \<Rightarrow> if sg = CHR ''+'' \<or> sg = CHR ''-'' then r' else r)
           in ds \<noteq> [] \<and> list_all digit ds))"

definition frac_exp_part :: "string \<Rightarrow> bool" where
  "frac_exp_part s =
     (case s of
        [] \<Rightarrow> True
      | d # r \<Rightarrow>
          if d = CHR ''.'' then takeWhile digit r \<noteq> [] \<and> exp_part (dropWhile digit r)
          else exp_part s)"

definition valid_number :: "string \<Rightarrow> bool" where
  "valid_number s =
     (let u = (case s of [] \<Rightarrow> [] | m # r \<Rightarrow> if m = CHR ''-'' then r else s)
      in int_part (takeWhile digit u) \<and> frac_exp_part (dropWhile digit u))"

function tokenize :: "string \<Rightarrow> token list option" where
  "tokenize [] = Some []"
| "tokenize (c # cs) =
     (if json_ws c then tokenize cs
      else if c = CHR ''{'' then map_option ((#) LBrace) (tokenize cs)
      else if c = CHR ''}'' then map_option ((#) RBrace) (tokenize cs)
      else if c = CHR ''['' then map_option ((#) LBracket) (tokenize cs)
      else if c = CHR '']'' then map_option ((#) RBracket) (tokenize cs)
      else if c = CHR '','' then map_option ((#) Comma) (tokenize cs)
      else if c = CHR '':'' then map_option ((#) Colon) (tokenize cs)
      else if c = CHR 0x22 then
        (case lex_string cs of
           None \<Rightarrow> None
         | Some (s, rest) \<Rightarrow> map_option ((#) (TString s)) (tokenize rest))
      else if c = CHR ''-'' \<or> digit c then
        (if valid_number (c # takeWhile number_char cs)
         then map_option ((#) (TNumber (c # takeWhile number_char cs)))
                (tokenize (dropWhile number_char cs))
         else None)
      else if take 4 (c # cs) = ''true'' then map_option ((#) TTrue) (tokenize (drop 3 cs))
      else if take 5 (c # cs) = ''false'' then map_option ((#) TFalse) (tokenize (drop 4 cs))
      else if take 4 (c # cs) = ''null'' then map_option ((#) TNull) (tokenize (drop 3 cs))
      else None)"
  by pat_completeness auto
termination
proof (relation "measure length")
  show "wf (measure length)" by simp
next
  fix c cs x2 x y
  assume "lex_string cs = Some x2" "(x, y) = x2"
  then have "length y < length cs"
    using lex_string_shorter [of cs x y] by simp
  then show "(y, c # cs) \<in> measure length" by simp
next
  fix c :: char and cs :: string
  have "length (dropWhile number_char cs) \<le> length cs"
    by (rule length_dropWhile_le)
  then show "(dropWhile number_char cs, c # cs) \<in> measure length" by simp
qed simp_all

subsection \<open>Values from tokens\<close>

text \<open>
  Property assignment: an existing key keeps its place and takes the new value, so of two
  properties with the same key in a text the later value wins.
\<close>

fun put :: "(string \<times> jsval) list \<Rightarrow> string \<Rightarrow> jsval \<Rightarrow> (string \<times> jsval) list" where
  "put [] k v = [(k, v)]"
| "put ((k', v') # fs) k v = (if k' = k then (k, v) # fs else (k', v') # put fs k v)"

text \<open>
  The parser reads the tokens from left to right with a stack of the arrays and objects
  that are still open: \<open>parse_value\<close> expects a value, \<open>parse_after\<close> has just read one.
\<close>

datatype frame = InArray "jsval list" | InObject "(string \<times> jsval) list" string

fun parse_value :: "frame list \<Rightarrow> token list \<Rightarrow> jsval option"
  and parse_after :: "jsval \<Rightarrow> frame list \<Rightarrow> token list \<Rightarrow> jsval option" where
  "parse_value st [] = None"
| "parse_value st (t # ts) =
     (case t of
        TString s \<Rightarrow> parse_after (JStr s) st ts
      | TNumber n \<Rightarrow> parse_after (JNum n) st ts
      | TTrue \<Rightarrow> parse_after (JBool True) st ts
      | TFalse \<Rightarrow> parse_after (JBool False) st ts
      | TNull \<Rightarrow> parse_after JNull st ts
      | LBracket \<Rightarrow>
          (case ts of
             RBracket # ts' \<Rightarrow> parse_after (JArr []) st ts'
           | _ \<Rightarrow> parse_value (InArray [] # st) ts)
      | LBrace \<Rightarrow>
          (case ts of
             RBrace # ts' \<Rightarrow> parse_after (JObj []) st ts'
           | TString k # Colon # ts' \<Rightarrow> parse_value (InObject [] k # st) ts'
           | _ \<Rightarrow> None)
      | _ \<Rightarrow> None)"
| "parse_after v [] ts = (if ts = [] then Some v else None)"
| "parse_after v (InArray xs # st) ts =
     (case ts of
        Comma # ts' \<Rightarrow> parse_value (InArray (xs @ [v]) # st) ts'
      | RBracket # ts' \<Rightarrow> parse_after (JArr (xs @ [v])) st ts'
      | _ \<Rightarrow> None)"
| "parse_after v (InObject fs k # st) ts =
     (case ts of
        Comma # TString k' # Colon # ts' \<Rightarrow> parse_value (InObject (put fs k v) k' # st) ts'
      | RBrace # ts' \<Rightarrow> parse_after (JObj (put fs k v)) st ts'
      | _ \<Rightarrow> None)"

definition json_parse :: "string \<Rightarrow> jsval option" where
  "json_parse text = (case tokenize text of None \<Rightarrow> None | Some ts \<Rightarrow> parse_value [] ts)"

subsection \<open>Text from values\<close>

text \<open>
  \<^verbatim>\<open>JSON.stringify\<close> without indentation. It returns \<^verbatim>\<open>undefined\<close> (here \<open>None\<close>) for
  \<^verbatim>\<open>undefined\<close>, writes \<^verbatim>\<open>null\<close> for an \<^verbatim>\<open>undefined\<close> array element and leaves out a
  property whose value is \<^verbatim>\<open>undefined\<close>. For a number it writes the text of the double
  that the literal denotes, \<open>nt n\<close>: the shortest decimal form of a finite double, and
  \<^verbatim>\<open>null\<close> for an infinite one.
\<close>

definition hex_digit :: "nat \<Rightarrow> char" where
  "hex_digit n = (if n < 10 then char_of (0x30 + n) else char_of (0x61 + (n - 10)))"

definition quote_char :: "char \<Rightarrow> string" where
  "quote_char c =
     (if c = CHR 0x22 then [CHR 0x5C, CHR 0x22]
      else if c = CHR 0x5C then [CHR 0x5C, CHR 0x5C]
      else if c = CHR 0x08 then [CHR 0x5C, CHR ''b'']
      else if c = CHR 0x0C then [CHR 0x5C, CHR ''f'']
      else if c = CHR 0x0A then [CHR 0x5C, CHR ''n'']
      else if c = CHR 0x0D then [CHR 0x5C, CHR ''r'']
      else if c = CHR 0x09 then [CHR 0x5C, CHR ''t'']
      else if code c < 0x20 then
        [CHR 0x5C, CHR ''u'', CHR ''0'', CHR ''0'', hex_digit (code c div 16), hex_digit (code c mod 16)]
      else [c])"

definition quote :: "string \<Rightarrow> string" where
  "quote s = CHR 0x22 # concat (map quote_char s) @ [CHR 0x22]"

fun join :: "string list \<Rightarrow> string" where
  "join [] = []"
| "join [x] = x"
| "join (x # y # zs) = x @ CHR '','' # join (y # zs)"

fun stringify :: "(string \<Rightarrow> string) \<Rightarrow> jsval \<Rightarrow> string option"
  and stringify_elements :: "(string \<Rightarrow> string) \<Rightarrow> jsval list \<Rightarrow> string list"
  and stringify_members :: "(string \<Rightarrow> string) \<Rightarrow> (string \<times> jsval) list \<Rightarrow> string list" where
  "stringify nt JUndefined = None"
| "stringify nt JNull = Some ''null''"
| "stringify nt (JBool b) = Some (if b then ''true'' else ''false'')"
| "stringify nt (JNum n) = Some (nt n)"
| "stringify nt (JStr s) = Some (quote s)"
| "stringify nt (JArr xs) = Some (CHR ''['' # join (stringify_elements nt xs) @ '']'')"
| "stringify nt (JObj fs) = Some (CHR ''{'' # join (stringify_members nt fs) @ ''}'')"
| "stringify_elements nt [] = []"
| "stringify_elements nt (x # xs) =
     (case stringify nt x of None \<Rightarrow> ''null'' | Some t \<Rightarrow> t) # stringify_elements nt xs"
| "stringify_members nt [] = []"
| "stringify_members nt ((k, v) # fs) =
     (case stringify nt v of
        None \<Rightarrow> stringify_members nt fs
      | Some t \<Rightarrow> (quote k @ CHR '':'' # t) # stringify_members nt fs)"

subsection \<open>JSON values\<close>

text \<open>
  The values that survive \<open>stringify\<close> followed by \<open>json_parse\<close> (\<open>json_roundtrip\<close>
  below): no \<^verbatim>\<open>undefined\<close> anywhere inside, the keys of every object distinct, and
  every number a literal of the grammar that \<^verbatim>\<open>JSON.stringify\<close> writes back as it is
  (\<open>nt n = n\<close>: the number is finite, and the literal is the form in which the platform
  prints it).
\<close>

fun json_value :: "(string \<Rightarrow> string) \<Rightarrow> jsval \<Rightarrow> bool"
  and json_values :: "(string \<Rightarrow> string) \<Rightarrow> jsval list \<Rightarrow> bool"
  and json_members :: "(string \<Rightarrow> string) \<Rightarrow> (string \<times> jsval) list \<Rightarrow> bool" where
  "json_value nt JUndefined = False"
| "json_value nt JNull = True"
| "json_value nt (JBool b) = True"
| "json_value nt (JNum n) = (valid_number n \<and> nt n = n)"
| "json_value nt (JStr s) = True"
| "json_value nt (JArr xs) = json_values nt xs"
| "json_value nt (JObj fs) = json_members nt fs"
| "json_values nt [] = True"
| "json_values nt (x # xs) = (json_value nt x \<and> json_values nt xs)"
| "json_members nt [] = True"
| "json_members nt ((k, v) # fs) = (json_value nt v \<and> k \<notin> fst ` set fs \<and> json_members nt fs)"

text \<open>The tokens of the text that \<open>stringify\<close> writes for a JSON value.\<close>

fun toks :: "jsval \<Rightarrow> token list"
  and toks_elements :: "jsval list \<Rightarrow> token list"
  and toks_members :: "(string \<times> jsval) list \<Rightarrow> token list" where
  "toks JUndefined = []"
| "toks JNull = [TNull]"
| "toks (JBool b) = [if b then TTrue else TFalse]"
| "toks (JNum n) = [TNumber n]"
| "toks (JStr s) = [TString s]"
| "toks (JArr xs) = LBracket # toks_elements xs @ [RBracket]"
| "toks (JObj fs) = LBrace # toks_members fs @ [RBrace]"
| "toks_elements [] = []"
| "toks_elements (x # xs) = toks x @ (if xs = [] then [] else Comma # toks_elements xs)"
| "toks_members [] = []"
| "toks_members ((k, v) # fs) =
     TString k # Colon # toks v @ (if fs = [] then [] else Comma # toks_members fs)"

text \<open>
  A text after which a number literal ends: empty, or starting outside the number
  characters.
\<close>

definition delimited :: "string \<Rightarrow> bool" where
  "delimited rest = (case rest of [] \<Rightarrow> True | c # _ \<Rightarrow> \<not> number_char c)"

section \<open>The transport (class WMTPTransport)\<close>

text \<open>
  The platform objects (the WebTransport connection, the writer and the reader of its
  stream) are known to the model by a handle. What the platform does when the client
  calls it is a parameter of every operation: a record that gives, for each call, its
  outcome, \<open>Inl\<close> or \<open>Some\<close> for a thrown error or a rejected promise.
  \<open>WebTransport_defined\<close> is the test \<^verbatim>\<open>typeof WebTransport !== 'undefined'\<close>;
  \<open>new_WebTransport\<close> takes the URL and the certificate hash of the options, if any.
  \<open>Number_is_zero\<close> and \<open>Number_text\<close> are the platform's numbers: whether the double
  that a literal denotes is zero, and the text that \<^verbatim>\<open>JSON.stringify\<close> writes for it.
\<close>

type_synonym handle = nat

type_synonym bytes = "8 word list"

record platform =
  WebTransport_defined :: bool
  atob :: "string \<Rightarrow> error + string"
  new_WebTransport :: "string \<Rightarrow> bytes option \<Rightarrow> error + handle"
  transport_ready :: "handle \<Rightarrow> error option"
  createBidirectionalStream :: "handle \<Rightarrow> error + handle \<times> handle"
  transport_close :: "handle \<Rightarrow> error option"
  writer_write :: "handle \<Rightarrow> bytes \<Rightarrow> error option"
  Number_is_zero :: "string \<Rightarrow> bool"
  Number_text :: "string \<Rightarrow> string"

text \<open>
  A handler field (\<^verbatim>\<open>onMessage\<close>, \<^verbatim>\<open>onConnect\<close>, ...) is \<^verbatim>\<open>null\<close> or a function
  supplied by the caller; the record keeps whether one is registered. Each call of a
  handler is recorded in \<open>signalled\<close>, oldest first. Handlers are observers: they
  neither write the fields of the object nor throw. \<open>written\<close> lists the frames the
  writer has accepted. \<open>watched\<close> lists the connections on whose \<^verbatim>\<open>closed\<close> promise
  \<^verbatim>\<open>connect\<close> has registered the teardown and which have not closed yet, one entry for
  each registration. An operation runs from its call to its return: of the events that
  may happen while it waits at an \<^verbatim>\<open>await\<close>, only the close of the connection that
  \<^verbatim>\<open>disconnect\<close> itself asks for is modelled.
\<close>

datatype signal = Connect | Disconnect | TransportError error | Message jsval

record WMTPTransport =
  transport :: "handle option"
  writer :: "handle option"
  reader :: "handle option"
  connected :: bool
  onMessage :: bool
  onConnect :: bool
  onDisconnect :: bool
  onError :: bool
  certHash :: "string option"
  signalled :: "signal list"
  written :: "bytes list"
  watched :: "handle list"

definition new_WMTPTransport :: WMTPTransport where
  "new_WMTPTransport =
     \<lparr> transport = None, writer = None, reader = None, connected = False,
       onMessage = False, onConnect = False, onDisconnect = False, onError = False,
       certHash = None, signalled = [], written = [], watched = [] \<rparr>"

text \<open>\<^verbatim>\<open>if (this.onX) { this.onX(...); }\<close>\<close>

definition emit :: "bool \<Rightarrow> signal \<Rightarrow> WMTPTransport \<Rightarrow> WMTPTransport" where
  "emit registered s t = (if registered then t\<lparr>signalled := signalled t @ [s]\<rparr> else t)"

definition setCertificateHash :: "string \<Rightarrow> WMTPTransport \<Rightarrow> WMTPTransport" where
  "setCertificateHash hash t = t\<lparr>certHash := Some hash\<rparr>"

definition base64ToArrayBuffer :: "platform \<Rightarrow> string \<Rightarrow> error + bytes" where
  "base64ToArrayBuffer pf base64 =
     (case atob pf base64 of
        Inl e \<Rightarrow> Inl e
      | Inr binaryString \<Rightarrow> Inr (map (\<lambda>c. of_nat (code c)) binaryString))"

text \<open>
  The options of the connection: the decoded certificate hash when \<^verbatim>\<open>certHash\<close> is
  truthy (set, and not the empty string).
\<close>

definition connection_options :: "platform \<Rightarrow> WMTPTransport \<Rightarrow> error + bytes option" where
  "connection_options pf t =
     (case certHash t of
        None \<Rightarrow> Inr None
      | Some hash \<Rightarrow>
          if hash = [] then Inr None
          else (case base64ToArrayBuffer pf hash of
                  Inl e \<Rightarrow> Inl e
                | Inr v \<Rightarrow> Inr (Some v)))"

text \<open>
  \<^verbatim>\<open>connect\<close>: \<open>connect_try\<close> is the body of the \<^verbatim>\<open>try\<close> block, with the state in
  which a failure leaves the object; \<open>connect\<close> adds the \<^verbatim>\<open>catch\<close> block, which
  calls the error handler and throws the error again. The read loop that \<^verbatim>\<open>connect\<close>
  starts has no effect before its first chunk arrives. Once the stream is open,
  \<^verbatim>\<open>connect\<close> registers \<^verbatim>\<open>_handleDisconnect\<close> on the \<^verbatim>\<open>closed\<close> promise of the
  connection (\<^verbatim>\<open>transport.closed.then(...).catch(...)\<close>): the connection is added
  to \<open>watched\<close>.
\<close>

definition connect_try :: "platform \<Rightarrow> string \<Rightarrow> WMTPTransport \<Rightarrow> (error + bool) \<times> WMTPTransport" where
  "connect_try pf url t =
     (if \<not> WebTransport_defined pf then (Inl CapabilityUnavailable, t)
      else case connection_options pf t of
        Inl e \<Rightarrow> (Inl e, t)
      | Inr options \<Rightarrow>
         (case new_WebTransport pf url options of
            Inl e \<Rightarrow> (Inl e, t)
          | Inr h \<Rightarrow>
             let t1 = t\<lparr>transport := Some h\<rparr> in
             (case transport_ready pf h of
                Some e \<Rightarrow> (Inl e, t1)
              | None \<Rightarrow>
                 (case createBidirectionalStream pf h of
                    Inl e \<Rightarrow> (Inl e, t1)
                  | Inr (w, r) \<Rightarrow>
                      let t2 = t1\<lparr>writer := Some w, reader := Some r, connected := True\<rparr>;
                          t3 = t2\<lparr>watched := h # watched t2\<rparr>
                      in (Inr True, emit (onConnect t3) Connect t3)))))"

definition connect :: "platform \<Rightarrow> string \<Rightarrow> WMTPTransport \<Rightarrow> (error + bool) \<times> WMTPTransport" where
  "connect pf url t =
     (case connect_try pf url t of
        (Inl error, t') \<Rightarrow> (Inl error, emit (onError t') (TransportError error) t')
      | (Inr r, t') \<Rightarrow> (Inr r, t'))"

definition handleDisconnect :: "WMTPTransport \<Rightarrow> WMTPTransport" where
  "handleDisconnect t =
     (let t' = t\<lparr>connected := False, transport := None, writer := None, reader := None\<rparr>
      in emit (onDisconnect t') Disconnect t')"

text \<open>
  The connection \<open>h\<close> closes (closed by the client or by the server, or lost): its
  \<^verbatim>\<open>closed\<close> promise settles, fulfilled or rejected, and each continuation that
  \<^verbatim>\<open>connect\<close> has registered on it runs \<^verbatim>\<open>_handleDisconnect\<close>, once.
\<close>

definition on_closed :: "handle \<Rightarrow> WMTPTransport \<Rightarrow> WMTPTransport" where
  "on_closed h t =
     (handleDisconnect ^^ count_list (watched t) h) (t\<lparr>watched := removeAll h (watched t)\<rparr>)"

text \<open>
  \<^verbatim>\<open>disconnect\<close> swallows a failure of \<^verbatim>\<open>close\<close>: both outcomes go on to the
  teardown. A \<^verbatim>\<open>close\<close> that succeeds closes the connection, so the teardown that
  \<^verbatim>\<open>connect\<close> registered on its \<^verbatim>\<open>closed\<close> promise runs as well, next to the one
  that \<^verbatim>\<open>disconnect\<close> runs itself (whichever of the two runs first, the resulting
  state is the same).
\<close>

definition disconnect :: "platform \<Rightarrow> WMTPTransport \<Rightarrow> (error + unit) \<times> WMTPTransport" where
  "disconnect pf t =
     (case transport t of
        None \<Rightarrow> (Inr (), handleDisconnect t)
      | Some h \<Rightarrow>
          (case transport_close pf h of
             Some e \<Rightarrow> (Inr (), handleDisconnect t)
           | None \<Rightarrow> (Inr (), handleDisconnect (on_closed h t))))"

text \<open>\<^verbatim>\<open>TextEncoder.encode\<close>, UTF-8, on code units below 256: one byte or two.\<close>

definition utf8_char :: "char \<Rightarrow> bytes" where
  "utf8_char c =
     (if code c < 0x80 then [of_nat (code c)]
      else [of_nat (0xC0 + code c div 0x40), of_nat (0x80 + code c mod 0x40)])"

definition TextEncoder_encode :: "string \<Rightarrow> bytes" where
  "TextEncoder_encode s = concat (map utf8_char s)"

text \<open>
  \<^verbatim>\<open>send\<close>. For \<^verbatim>\<open>undefined\<close>, \<^verbatim>\<open>JSON.stringify\<close> gives \<^verbatim>\<open>undefined\<close>, which the
  encoder encodes as the empty text.
\<close>

definition send :: "platform \<Rightarrow> jsval \<Rightarrow> WMTPTransport \<Rightarrow> (error + unit) \<times> WMTPTransport" where
  "send pf data t =
     (case (connected t, writer t) of
        (True, Some w) \<Rightarrow>
          let message = (case data of JStr s \<Rightarrow> Some s | _ \<Rightarrow> stringify (Number_text pf) data);
              encoded = (case message of None \<Rightarrow> [] | Some s \<Rightarrow> TextEncoder_encode s)
          in (case writer_write pf w encoded of
                Some e \<Rightarrow> (Inl e, t)
              | None \<Rightarrow> (Inr (), t\<lparr>written := written t @ [encoded]\<rparr>))
      | _ \<Rightarrow> (Inl NotConnected, t))"

definition isConnected :: "WMTPTransport \<Rightarrow> bool" where
  "isConnected t = connected t"

subsection \<open>Splitting a chunk\<close>

text \<open>
  The whitespace of \<^verbatim>\<open>trim\<close> and of the pattern \<^verbatim>\<open>\s\<close>, below 256: tab, line feed,
  vertical tab, form feed, carriage return, space, no-break space.
\<close>

definition js_ws :: "char \<Rightarrow> bool" where
  "js_ws c = (code c \<in> {0x09, 0x0A, 0x0B, 0x0C, 0x0D, 0x20, 0xA0})"

definition trim :: "string \<Rightarrow> string" where
  "trim s = rev (dropWhile js_ws (rev (dropWhile js_ws s)))"

text \<open>
  \<^verbatim>\<open>split(/\}\s*\{/)\<close>. \<open>boundary\<close> matches the rest of the pattern right after a
  closing brace and gives the text after the match. \<open>split part s\<close> scans \<open>s\<close> from
  left to right, \<open>part\<close> being the piece collected since the last match; a match ends the
  piece, and the scan goes on after the match.
\<close>

definition boundary :: "string \<Rightarrow> string option" where
  "boundary s =
     (case dropWhile js_ws s of
        [] \<Rightarrow> None
      | c # rest \<Rightarrow> if c = CHR ''{'' then Some rest else None)"

lemma boundary_shorter: "boundary s = Some rest \<Longrightarrow> length rest < length s"
proof -
  assume "boundary s = Some rest"
  then obtain c where "dropWhile js_ws s = c # rest"
    by (auto simp: boundary_def split: list.splits if_splits)
  moreover have "length (dropWhile js_ws s) \<le> length s"
    by (rule length_dropWhile_le)
  ultimately show ?thesis by simp
qed

function split :: "string \<Rightarrow> string \<Rightarrow> string list" where
  "split part [] = [part]"
| "split part (c # cs) =
     (if c = CHR ''}'' then
        (case boundary cs of
           Some rest \<Rightarrow> part # split [] rest
         | None \<Rightarrow> split (part @ [c]) cs)
      else split (part @ [c]) cs)"
  by pat_completeness auto
termination
proof (relation "measure (\<lambda>(part, s). length s)")
  fix part :: string and c cs rest
  assume "boundary cs = Some rest"
  then have "length rest < length cs"
    by (rule boundary_shorter)
  then show "(([], rest), part, c # cs) \<in> measure (\<lambda>(part, s). length s)" by simp
qed simp_all

text \<open>The pattern occurs somewhere in the text.\<close>

fun has_boundary :: "string \<Rightarrow> bool" where
  "has_boundary [] = False"
| "has_boundary (c # cs) = ((c = CHR ''}'' \<and> boundary cs \<noteq> None) \<or> has_boundary cs)"

text \<open>
  \<^verbatim>\<open>_parseMessages\<close>. The parser is a parameter (\<open>None\<close> where it throws), so that the
  facts proved about the splitter hold for the platform's parser as for \<open>json_parse\<close>.
  The result is the array of parsed messages and the texts reported by
  \<^verbatim>\<open>console.warn\<close>, one for each piece that failed to parse.
\<close>

fun forEach_part ::
  "(string \<Rightarrow> jsval option) \<Rightarrow> nat \<Rightarrow> nat \<Rightarrow> string list \<Rightarrow> jsval list \<times> string list
     \<Rightarrow> jsval list \<times> string list" where
  "forEach_part JSON_parse n index [] acc = acc"
| "forEach_part JSON_parse n index (part # parts) (messages, warnings) =
     (let json = part;
          json = (if index > 0 then CHR ''{'' # json else json);
          json = (if int index < int n - 1 then json @ ''}'' else json)
      in case JSON_parse json of
           Some v \<Rightarrow> forEach_part JSON_parse n (index + 1) parts (messages @ [v], warnings)
         | None \<Rightarrow> forEach_part JSON_parse n (index + 1) parts (messages, warnings @ [json]))"

definition parseMessages :: "(string \<Rightarrow> jsval option) \<Rightarrow> string \<Rightarrow> jsval list \<times> string list" where
  "parseMessages JSON_parse text =
     (let parts = split [] (trim text)
      in forEach_part JSON_parse (length parts) 0 parts ([], []))"

section \<open>The protocol session (class WMTPProtocol)\<close>

text \<open>
  Handlers as for the transport: the record keeps whether one is registered, and calling
  one is recorded in \<open>fired\<close>, oldest call first. \<open>onProtocolError\<close> is the field
  \<^verbatim>\<open>onError\<close> of the class.
\<close>

datatype notification =
    SessionInit jsval
  | AuthSuccess jsval
  | AuthFail jsval
  | Heartbeat jsval
  | Response jsval
  | ProtocolError jsval

record WMTPProtocol =
  sessionToken :: jsval
  authenticated :: jsval
  email :: jsval
  username :: jsval
  onSessionInit :: bool
  onAuthSuccess :: bool
  onAuthFail :: bool
  onHeartbeat :: bool
  onResponse :: bool
  onProtocolError :: bool
  fired :: "notification list"

definition new_WMTPProtocol :: WMTPProtocol where
  "new_WMTPProtocol =
     \<lparr> sessionToken = JNull, authenticated = JBool False, email = JNull, username = JNull,
       onSessionInit = False, onAuthSuccess = False, onAuthFail = False,
       onHeartbeat = False, onResponse = False, onProtocolError = False, fired = [] \<rparr>"

definition notify :: "bool \<Rightarrow> notification \<Rightarrow> WMTPProtocol \<Rightarrow> WMTPProtocol" where
  "notify registered n p = (if registered then p\<lparr>fired := fired p @ [n]\<rparr> else p)"

text \<open>The \<^verbatim>\<open>switch (message.cmd)\<close> of \<^verbatim>\<open>handleMessage\<close>.\<close>

definition switch_cmd :: "jsval \<Rightarrow> WMTPProtocol \<Rightarrow> WMTPProtocol" where
  "switch_cmd message p =
     (if field message ''cmd'' = JStr ''SESSION_INIT'' then
        notify (onSessionInit p) (SessionInit message)
          (p\<lparr>sessionToken := field message ''session_token'',
             authenticated := JBool False\<rparr>)
      else if field message ''cmd'' = JStr ''AUTH_OK'' then
        notify (onAuthSuccess p) (AuthSuccess message)
          (p\<lparr>sessionToken := field message ''session_token'',
             authenticated := JBool True,
             email := field message ''email'',
             username := field message ''username''\<rparr>)
      else if field message ''cmd'' = JStr ''SESSION_RESUMED'' then
        notify (onSessionInit p) (SessionInit message)
          (p\<lparr>sessionToken := field message ''session_token'',
             authenticated := field message ''authenticated'',
             email := field message ''email'',
             username := field message ''username''\<rparr>)
      else if field message ''cmd'' = JStr ''LOGOUT_OK'' then
        p\<lparr>sessionToken := JNull, authenticated := JBool False,
           email := JNull, username := JNull\<rparr>
      else p)"

definition handleMessage :: "jsval \<Rightarrow> WMTPProtocol \<Rightarrow> error + WMTPProtocol" where
  "handleMessage message p =
     (if nullish message then Inl TypeError
      else if field message ''cmd'' = JStr ''HB'' then
        Inr (notify (onHeartbeat p) (Heartbeat message) p)
      else
        let p1 = switch_cmd message p;
            p2 = (if field message ''status'' = JStr ''ERR''
                  then notify (onProtocolError p1) (ProtocolError message) p1 else p1)
        in Inr (notify (onResponse p2) (Response message) p2))"

definition getSession :: "WMTPProtocol \<Rightarrow> jsval" where
  "getSession p =
     JObj [(''token'', sessionToken p), (''authenticated'', authenticated p),
           (''email'', email p), (''username'', username p)]"

definition isAuthenticated :: "WMTPProtocol \<Rightarrow> jsval" where
  "isAuthenticated p = authenticated p"

text \<open>
  The command operations. The protocol object holds a reference to the transport object
  (\<^verbatim>\<open>this.transport\<close>); an operation takes the state of both objects and returns
  both. \<open>protocol_send\<close> is the method \<^verbatim>\<open>send\<close> of the class.
\<close>

type_synonym client = "WMTPTransport \<times> WMTPProtocol"

definition protocol_send :: "platform \<Rightarrow> jsval \<Rightarrow> client \<Rightarrow> (error + unit) \<times> client" where
  "protocol_send pf command c =
     (case c of (t, p) \<Rightarrow> (case send pf command t of (r, t') \<Rightarrow> (r, (t', p))))"

definition init :: "platform \<Rightarrow> client \<Rightarrow> (error + unit) \<times> client" where
  "init pf = protocol_send pf (JObj [(''cmd'', JStr ''INIT'')])"

definition auth :: "platform \<Rightarrow> jsval \<Rightarrow> client \<Rightarrow> (error + unit) \<times> client" where
  "auth pf email' =
     protocol_send pf (JObj [(''cmd'', JStr ''AUTH''), (''data'', JObj [(''email'', email')])])"

definition resume :: "platform \<Rightarrow> jsval \<Rightarrow> client \<Rightarrow> (error + unit) \<times> client" where
  "resume pf token' =
     protocol_send pf (JObj [(''cmd'', JStr ''RESUME''), (''data'', JObj [(''token'', token')])])"

definition logout :: "platform \<Rightarrow> client \<Rightarrow> (error + unit) \<times> client" where
  "logout pf c =
     (case protocol_send pf
             (JObj [(''cmd'', JStr ''LOGOUT''),
                    (''data'', JObj [(''token'', sessionToken (snd c))])]) c of
        (Inl e, c') \<Rightarrow> (Inl e, c')
      | (Inr result, (t', p')) \<Rightarrow>
          (Inr result,
           (t', p'\<lparr>sessionToken := JNull, authenticated := JBool False,
                  email := JNull, username := JNull\<rparr>)))"

definition ping :: "platform \<Rightarrow> client \<Rightarrow> (error + unit) \<times> client" where
  "ping pf = protocol_send pf (JObj [(''cmd'', JStr ''PING'')])"

definition status :: "platform \<Rightarrow> client \<Rightarrow> (error + unit) \<times> client" where
  "status pf = protocol_send pf (JObj [(''cmd'', JStr ''STATUS'')])"

definition info :: "platform \<Rightarrow> client \<Rightarrow> (error + unit) \<times> client" where
  "info pf = protocol_send pf (JObj [(''cmd'', JStr ''INFO'')])"

text \<open>
  The persistence bridge. \<^verbatim>\<open>localStorage\<close> is a map from keys to strings;
  \<^verbatim>\<open>getItem\<close> gives \<^verbatim>\<open>null\<close> for a missing key, and \<^verbatim>\<open>setItem\<close> stores the string
  form of its argument.
\<close>

type_synonym localStorage = "string \<rightharpoonup> string"

definition saveSession :: "platform \<Rightarrow> WMTPProtocol \<Rightarrow> localStorage \<Rightarrow> localStorage" where
  "saveSession pf p store =
     (if truthy (Number_is_zero pf) (sessionToken p) then
        store(''wmtp_session'' \<mapsto>
          (case stringify (Number_text pf) (JObj [(''token'', sessionToken p), (''email'', email p),
                                 (''username'', username p)]) of
             Some s \<Rightarrow> s
           | None \<Rightarrow> ''undefined''))
      else store)"

definition loadSession :: "localStorage \<Rightarrow> jsval" where
  "loadSession store =
     (case store ''wmtp_session'' of
        None \<Rightarrow> JNull
      | Some saved \<Rightarrow>
          if saved \<noteq> [] then
            (case json_parse saved of Some v \<Rightarrow> v | None \<Rightarrow> JNull)
          else JNull)"

definition clearSession :: "localStorage \<Rightarrow> localStorage" where
  "clearSession store = store(''wmtp_session'' := None)"

text \<open>
  The session invariant of the data model: an authenticated session (the flag is the
  boolean \<^verbatim>\<open>true\<close>) has a token, a non-empty string.
\<close>

fun token_present :: "jsval \<Rightarrow> bool" where
  "token_present (JStr s) = (s \<noteq> [])"
| "token_present _ = False"

definition session_inv :: "WMTPProtocol \<Rightarrow> bool" where
  "session_inv p = (authenticated p = JBool True \<longrightarrow> token_present (sessionToken p))"

section \<open>Concrete platforms and stores\<close>

text \<open>
  Platforms on which the operations are run on concrete inputs: one without
  WebTransport, one that cannot decode a certificate hash, one whose constructor
  throws, one whose handshake is refused, one that refuses to open the stream, one
  where every step succeeds; and the empty store. Their numbers are those of a browser
  on the literals used below: zero is written \<^verbatim>\<open>0\<close>, \<^verbatim>\<open>-0\<close> or \<^verbatim>\<open>1e-400\<close> (which underflows), \<^verbatim>\<open>1e400\<close> overflows
  and is written back as \<^verbatim>\<open>null\<close>, and an integer literal such as \<^verbatim>\<open>42\<close> is written
  back as it is.
\<close>

definition sample_is_zero :: "string \<Rightarrow> bool" where
  "sample_is_zero n = (n \<in> set [''0'', ''-0'', ''1e-400''])"

definition sample_number_text :: "string \<Rightarrow> string" where
  "sample_number_text n =
     (if n = ''1e400'' then ''null''
      else if n \<in> set [''-0'', ''1e-400''] then ''0''
      else n)"

definition no_platform :: platform where
  "no_platform =
     \<lparr> WebTransport_defined = False, atob = (\<lambda>s. Inr s),
       new_WebTransport = (\<lambda>url options. Inr 1),
       transport_ready = (\<lambda>h. None),
       createBidirectionalStream = (\<lambda>h. Inr (2, 3)),
       transport_close = (\<lambda>h. None),
       writer_write = (\<lambda>w b. None),
       Number_is_zero = sample_is_zero, Number_text = sample_number_text \<rparr>"

definition handshake_refused :: platform where
  "handshake_refused =
     \<lparr> WebTransport_defined = True, atob = (\<lambda>s. Inr s),
       new_WebTransport = (\<lambda>url options. Inr 1),
       transport_ready = (\<lambda>h. Some (Failure ''handshake'')),
       createBidirectionalStream = (\<lambda>h. Inr (2, 3)),
       transport_close = (\<lambda>h. None),
       writer_write = (\<lambda>w b. None),
       Number_is_zero = sample_is_zero, Number_text = sample_number_text \<rparr>"

definition atob_refused :: platform where
  "atob_refused =
     \<lparr> WebTransport_defined = True, atob = (\<lambda>s. Inl (Failure ''atob'')),
       new_WebTransport = (\<lambda>url options. Inr 1),
       transport_ready = (\<lambda>h. None),
       createBidirectionalStream = (\<lambda>h. Inr (2, 3)),
       transport_close = (\<lambda>h. None),
       writer_write = (\<lambda>w b. None),
       Number_is_zero = sample_is_zero, Number_text = sample_number_text \<rparr>"

definition constructor_refused :: platform where
  "constructor_refused =
     \<lparr> WebTransport_defined = True, atob = (\<lambda>s. Inr s),
       new_WebTransport = (\<lambda>url options. Inl (Failure ''constructor'')),
       transport_ready = (\<lambda>h. None),
       createBidirectionalStream = (\<lambda>h. Inr (2, 3)),
       transport_close = (\<lambda>h. None),
       writer_write = (\<lambda>w b. None),
       Number_is_zero = sample_is_zero, Number_text = sample_number_text \<rparr>"

definition stream_refused :: platform where
  "stream_refused =
     \<lparr> WebTransport_defined = True, atob = (\<lambda>s. Inr s),
       new_WebTransport = (\<lambda>url options. Inr 1),
       transport_ready = (\<lambda>h. None),
       createBidirectionalStream = (\<lambda>h. Inl (Failure ''stream'')),
       transport_close = (\<lambda>h. None),
       writer_write = (\<lambda>w b. None),
       Number_is_zero = sample_is_zero, Number_text = sample_number_text \<rparr>"

definition working_platform :: platform where
  "working_platform =
     \<lparr> WebTransport_defined = True, atob = (\<lambda>s. Inr s),
       new_WebTransport = (\<lambda>url options. Inr 1),
       transport_ready = (\<lambda>h. None),
       createBidirectionalStream = (\<lambda>h. Inr (2, 3)),
       transport_close = (\<lambda>h. None),
       writer_write = (\<lambda>w b. None),
       Number_is_zero = sample_is_zero, Number_text = sample_number_text \<rparr>"

definition empty_store :: localStorage where
  "empty_store = Map.empty"

section \<open>Facts about JSON text\<close>

subsection \<open>String literals\<close>

lemma code_char_of: "n < 256 \<Longrightarrow> code (char_of n) = n"
  by (simp add: code_def)

lemma char_of_code: "char_of (code c) = c"
  by (simp add: code_def)

lemma hex_value_hex_digit: "n < 16 \<Longrightarrow> hex_value (hex_digit n) = Some n"
  by (auto simp: hex_value_def hex_digit_def digit_def code_char_of)

lemma hex_value_zero: "hex_value CHR ''0'' = Some 0"
  by (simp add: hex_value_def digit_def code_def)

lemma string_char_quote_char:
  "string_char (quote_char c @ rest) = Some (c, rest)"
proof (cases "code c < 0x20")
  case False
  then show ?thesis
    by (auto simp: quote_char_def unescape_def code_def)
next
  case True
  then have d: "code c div 16 < 16" "code c mod 16 < 16" by simp_all
  have r: "char_of (16 * (code c div 16) + code c mod 16) = c"
    by (simp add: char_of_code)
  show ?thesis
    using True d r
    by (auto simp: quote_char_def unescape_def hex_value_hex_digit hex_value_zero)
qed

lemma quote_char_head:
  "\<exists>x xs. quote_char c = x # xs \<and> x \<noteq> CHR 0x22"
  by (simp add: quote_char_def)

lemma lex_string_quoted:
  "lex_string (concat (map quote_char s) @ CHR 0x22 # rest) = Some (s, rest)"
proof (induction s)
  case Nil
  then show ?case by simp
next
  case (Cons c s)
  let ?r = "concat (map quote_char s) @ CHR 0x22 # rest"
  obtain x xs where q: "quote_char c = x # xs" and x: "x \<noteq> CHR 0x22"
    using quote_char_head by blast
  have sc: "string_char (x # xs @ ?r) = Some (c, ?r)"
    using string_char_quote_char [of c ?r] q by simp
  have "lex_string (x # xs @ ?r) = map_option (apfst ((#) c)) (lex_string ?r)"
    using x sc by (simp del: string_char.simps)
  then show ?case
    using q Cons.IH by simp
qed

subsection \<open>Parsing the tokens of a value\<close>

lemma json_values_iff: "json_values nt xs \<longleftrightarrow> (\<forall>x \<in> set xs. json_value nt x)"
  by (induction xs) auto

lemma json_members_iff:
  "json_members nt fs \<longleftrightarrow> distinct (map fst fs) \<and> (\<forall>(k, v) \<in> set fs. json_value nt v)"
  by (induction fs) force+

lemma toks_head:
  "json_value nt v \<Longrightarrow> \<exists>t ts. toks v = t # ts \<and> t \<noteq> RBracket \<and> t \<noteq> RBrace \<and> t \<noteq> Comma \<and> t \<noteq> Colon"
  by (cases v) auto

lemma parse_elements:
  assumes "\<And>x st ts. x \<in> set xs \<Longrightarrow> parse_value st (toks x @ ts) = parse_after x st ts"
    and "xs \<noteq> []"
  shows "parse_value (InArray acc # st) (toks_elements xs @ RBracket # ts) =
         parse_after (JArr (acc @ xs)) st ts"
  using assms
proof (induction xs arbitrary: acc)
  case Nil
  then show ?case by simp
next
  case (Cons x xs)
  have x: "\<And>st ts. parse_value st (toks x @ ts) = parse_after x st ts"
    using Cons.prems(1) by simp
  show ?case
  proof (cases "xs = []")
    case True
    then show ?thesis
      using x [of "InArray acc # st" "RBracket # ts"] by simp
  next
    case False
    have "parse_value (InArray acc # st) (toks_elements (x # xs) @ RBracket # ts) =
        parse_value (InArray acc # st) (toks x @ Comma # toks_elements xs @ RBracket # ts)"
      using False by simp
    also have "\<dots> = parse_after x (InArray acc # st) (Comma # toks_elements xs @ RBracket # ts)"
      by (rule x)
    also have "\<dots> = parse_value (InArray (acc @ [x]) # st) (toks_elements xs @ RBracket # ts)"
      by simp
    also have "\<dots> = parse_after (JArr ((acc @ [x]) @ xs)) st ts"
      using Cons.prems(1) False by (intro Cons.IH) simp_all
    finally show ?thesis by simp
  qed
qed

lemma put_fresh: "k \<notin> fst ` set acc \<Longrightarrow> put acc k v = acc @ [(k, v)]"
  by (induction acc) auto

lemma parse_members:
  assumes "\<And>k v st ts. (k, v) \<in> set fs \<Longrightarrow> parse_value st (toks v @ ts) = parse_after v st ts"
    and "distinct (k # map fst acc @ map fst fs)"
  shows "parse_after v (InObject acc k # st)
           ((if fs = [] then [] else Comma # toks_members fs) @ RBrace # ts) =
         parse_after (JObj (acc @ (k, v) # fs)) st ts"
  using assms
proof (induction fs arbitrary: acc k v)
  case Nil
  then show ?case
    by (simp add: put_fresh)
next
  case (Cons f fs)
  obtain k' v' where f: "f = (k', v')" by (cases f)
  have v': "\<And>st ts. parse_value st (toks v' @ ts) = parse_after v' st ts"
    using Cons.prems(1) [of k' v'] f by simp
  have fresh: "k \<notin> fst ` set acc"
    using Cons.prems(2) by auto
  have d: "distinct (k' # map fst (acc @ [(k, v)]) @ map fst fs)"
    using Cons.prems(2) f by auto
  let ?tail = "(if fs = [] then [] else Comma # toks_members fs) @ RBrace # ts"
  have "parse_after v (InObject acc k # st)
          ((if f # fs = [] then [] else Comma # toks_members (f # fs)) @ RBrace # ts) =
        parse_after v (InObject acc k # st) (Comma # TString k' # Colon # toks v' @ ?tail)"
    using f by simp
  also have "\<dots> = parse_value (InObject (acc @ [(k, v)]) k' # st) (toks v' @ ?tail)"
    using fresh by (simp add: put_fresh)
  also have "\<dots> = parse_after v' (InObject (acc @ [(k, v)]) k' # st) ?tail"
    by (rule v')
  also have "\<dots> = parse_after (JObj ((acc @ [(k, v)]) @ (k', v') # fs)) st ts"
  proof (rule Cons.IH [OF _ d])
    fix k v st ts
    assume "(k, v) \<in> set fs"
    then show "parse_value st (toks v @ ts) = parse_after v st ts"
      using Cons.prems(1) [of k v] by simp
  qed
  finally show ?case
    using f by simp
qed

lemma parse_toks:
  "json_value nt v \<Longrightarrow> parse_value st (toks v @ ts) = parse_after v st ts"
proof (induction v arbitrary: st ts)
  case (JArr xs)
  show ?case
  proof (cases xs)
    case Nil
    then show ?thesis by simp
  next
    case (Cons x xs')
    have jv: "\<And>y. y \<in> set xs \<Longrightarrow> json_value nt y"
      using JArr.prems by (simp add: json_values_iff)
    obtain t tl where t: "toks x = t # tl" "t \<noteq> RBracket"
      using toks_head [of nt x] jv [of x] Cons by auto
    then obtain tl' where hd: "toks_elements xs @ RBracket # ts = t # tl'"
      using Cons by (cases "xs' = []") auto
    have "parse_value st (toks (JArr xs) @ ts) =
        parse_value (InArray [] # st) (toks_elements xs @ RBracket # ts)"
      using hd t(2) by (cases t) simp_all
    also have "\<dots> = parse_after (JArr ([] @ xs)) st ts"
      using JArr.IH jv Cons by (intro parse_elements) simp_all
    finally show ?thesis by simp
  qed
next
  case (JObj fs)
  show ?case
  proof (cases fs)
    case Nil
    then show ?thesis by simp
  next
    case (Cons f fs')
    obtain k v where f: "f = (k, v)" by (cases f)
    have jm: "distinct (map fst fs)" "\<And>k v. (k, v) \<in> set fs \<Longrightarrow> json_value nt v"
      using JObj.prems by (auto simp: json_members_iff)
    have el: "\<And>k v st ts. (k, v) \<in> set fs \<Longrightarrow> parse_value st (toks v @ ts) = parse_after v st ts"
    proof -
      fix k v st ts
      assume m: "(k, v) \<in> set fs"
      then have "v \<in> Basic_BNFs.snds (k, v)" by simp
      from JObj.IH [OF m this jm(2) [OF m]] show "parse_value st (toks v @ ts) = parse_after v st ts" .
    qed
    let ?tail = "(if fs' = [] then [] else Comma # toks_members fs') @ RBrace # ts"
    have "parse_value st (toks (JObj fs) @ ts) =
        parse_value st (LBrace # TString k # Colon # toks v @ ?tail)"
      using Cons f by simp
    also have "\<dots> = parse_value (InObject [] k # st) (toks v @ ?tail)"
      by simp
    also have "\<dots> = parse_after v (InObject [] k # st) ?tail"
      using el [of k v] Cons f by simp
    also have "\<dots> = parse_after (JObj ([] @ (k, v) # fs')) st ts"
      using el jm(1) Cons f by (intro parse_members) auto
    finally show ?thesis
      using Cons f by simp
  qed
qed simp_all

subsection \<open>The tokens of the text of a value\<close>

lemma lex_punct:
  "tokenize (CHR ''{'' # s) = map_option ((#) LBrace) (tokenize s)"
  "tokenize (CHR ''}'' # s) = map_option ((#) RBrace) (tokenize s)"
  "tokenize (CHR ''['' # s) = map_option ((#) LBracket) (tokenize s)"
  "tokenize (CHR '']'' # s) = map_option ((#) RBracket) (tokenize s)"
  "tokenize (CHR '','' # s) = map_option ((#) Comma) (tokenize s)"
  "tokenize (CHR '':'' # s) = map_option ((#) Colon) (tokenize s)"
  by (simp_all add: json_ws_def)

lemma lex_literal:
  "tokenize (''null'' @ s) = map_option ((#) TNull) (tokenize s)"
  "tokenize (''true'' @ s) = map_option ((#) TTrue) (tokenize s)"
  "tokenize (''false'' @ s) = map_option ((#) TFalse) (tokenize s)"
  by (simp_all add: json_ws_def digit_def code_def)

lemma delimited_punct:
  "delimited []" "delimited (CHR '','' # s)" "delimited (CHR '']'' # s)" "delimited (CHR ''}'' # s)"
  by (simp_all add: delimited_def number_char_def digit_def code_def)

lemma digit_number_char: "digit c \<Longrightarrow> number_char c"
  by (simp add: number_char_def)

lemma lex_quote:
  "tokenize (quote s @ rest) = map_option ((#) (TString s)) (tokenize rest)"
proof -
  have "tokenize (CHR 0x22 # (concat (map quote_char s) @ CHR 0x22 # rest)) =
      (case lex_string (concat (map quote_char s) @ CHR 0x22 # rest) of
         None \<Rightarrow> None
       | Some (s, rest) \<Rightarrow> map_option ((#) (TString s)) (tokenize rest))"
    by (simp add: json_ws_def)
  then show ?thesis
    by (simp add: quote_def lex_string_quoted)
qed

lemma exp_part_chars:
  assumes "exp_part x"
  shows "list_all number_char x"
proof (cases x)
  case Nil
  then show ?thesis by simp
next
  case (Cons e r)
  define ds where
    "ds = (case r of [] \<Rightarrow> [] | sg # r' \<Rightarrow> if sg = CHR ''+'' \<or> sg = CHR ''-'' then r' else r)"
  from assms Cons have e: "e = CHR ''e'' \<or> e = CHR ''E''" and ds: "list_all digit ds"
    by (simp_all add: exp_part_def ds_def Let_def)
  have dsn: "list_all number_char ds"
    using ds by (auto simp: list_all_iff digit_number_char)
  have "list_all number_char r"
  proof (cases r)
    case Nil
    then show ?thesis by simp
  next
    case (Cons sg r')
    then show ?thesis
      using dsn by (cases "sg = CHR ''+'' \<or> sg = CHR ''-''") (auto simp: ds_def number_char_def)
  qed
  with e Cons show ?thesis
    by (auto simp: number_char_def)
qed

lemma digits_then:
  assumes "list_all number_char (dropWhile digit r)"
  shows "list_all number_char r"
proof -
  have "\<And>x. x \<in> set (takeWhile digit r) \<Longrightarrow> number_char x"
    using set_takeWhileD digit_number_char by metis
  then have "list_all number_char (takeWhile digit r)"
    unfolding list_all_iff by blast
  with assms have "list_all number_char (takeWhile digit r @ dropWhile digit r)"
    unfolding list_all_append by blast
  then show ?thesis
    unfolding takeWhile_dropWhile_id .
qed

lemma frac_exp_part_chars: "frac_exp_part x \<Longrightarrow> list_all number_char x"
proof (cases x)
  case Nil
  then show ?thesis by simp
next
  case (Cons d r)
  assume fe: "frac_exp_part x"
  show ?thesis
  proof (cases "d = CHR ''.''")
    case True
    with fe Cons have "exp_part (dropWhile digit r)"
      by (simp add: frac_exp_part_def)
    then have "list_all number_char r"
      by (rule digits_then [OF exp_part_chars])
    with True Cons show ?thesis
      by (simp add: number_char_def)
  next
    case False
    with fe Cons have "exp_part x"
      by (simp add: frac_exp_part_def)
    then show ?thesis
      by (rule exp_part_chars)
  qed
qed

lemma valid_number_chars:
  assumes "valid_number n"
  shows "\<exists>c n'. n = c # n' \<and> (c = CHR ''-'' \<or> digit c) \<and> list_all number_char n'"
proof -
  define u where "u = (case n of [] \<Rightarrow> [] | m # r \<Rightarrow> if m = CHR ''-'' then r else n)"
  have ip: "int_part (takeWhile digit u)" and fe: "frac_exp_part (dropWhile digit u)"
    using assms by (simp_all add: valid_number_def u_def Let_def)
  have all: "list_all number_char u"
    by (rule digits_then [OF frac_exp_part_chars [OF fe]])
  from ip have "takeWhile digit u \<noteq> []"
    by (simp add: int_part_def)
  then obtain d u' where u: "u = d # u'" and d: "digit d"
    by (cases u) (auto split: if_splits)
  show ?thesis
  proof (cases n)
    case Nil
    with u show ?thesis by (simp add: u_def)
  next
    case (Cons m r)
    show ?thesis
    proof (cases "m = CHR ''-''")
      case True
      with Cons all show ?thesis by (simp add: u_def)
    next
      case False
      with Cons have "u = n" by (simp add: u_def)
      with u d all show ?thesis by auto
    qed
  qed
qed

lemma number_span:
  assumes "list_all number_char n'" and "delimited rest"
  shows "takeWhile number_char (n' @ rest) = n'" and "dropWhile number_char (n' @ rest) = rest"
proof -
  have r: "takeWhile number_char rest = []" "dropWhile number_char rest = rest"
    using assms(2) by (cases rest; simp add: delimited_def)+
  have a: "\<And>x. x \<in> set n' \<Longrightarrow> number_char x"
    using assms(1) by (simp add: list_all_iff)
  show "takeWhile number_char (n' @ rest) = n'"
    using a r by simp
  show "dropWhile number_char (n' @ rest) = rest"
    using a r by simp
qed

lemma lex_number:
  assumes "valid_number n" and "delimited rest"
  shows "tokenize (n @ rest) = map_option ((#) (TNumber n)) (tokenize rest)"
proof -
  obtain c n' where n: "n = c # n'" and c: "c = CHR ''-'' \<or> digit c"
    and all: "list_all number_char n'"
    using valid_number_chars [OF assms(1)] by blast
  have nc: "\<not> json_ws c" "c \<noteq> CHR ''{''" "c \<noteq> CHR ''}''" "c \<noteq> CHR ''[''" "c \<noteq> CHR '']''"
    "c \<noteq> CHR '',''" "c \<noteq> CHR '':''" "c \<noteq> CHR 0x22"
    using c by (auto simp: json_ws_def digit_def code_def)
  show ?thesis
    using nc c assms(1) number_span [OF all assms(2)]
    by (simp add: n)
qed

lemma join_Cons: "join (x # xs) = x @ (if xs = [] then [] else CHR '','' # join xs)"
  by (cases xs) simp_all

lemma stringify_json_value: "json_value nt v \<Longrightarrow> \<exists>s. stringify nt v = Some s"
  by (cases v) simp_all

lemma stringify_elements_Nil: "stringify_elements nt xs = [] \<longleftrightarrow> xs = []"
  by (cases xs) simp_all

lemma lex_elements:
  assumes "\<And>x rest ts. x \<in> set xs \<Longrightarrow> delimited rest \<Longrightarrow> tokenize rest = Some ts \<Longrightarrow>
             \<exists>s. stringify nt x = Some s \<and> tokenize (s @ rest) = Some (toks x @ ts)"
    and "delimited rest" and "tokenize rest = Some ts"
  shows "tokenize (join (stringify_elements nt xs) @ rest) = Some (toks_elements xs @ ts)"
  using assms(1)
proof (induction xs)
  case Nil
  then show ?case using assms(3) by simp
next
  case (Cons x xs)
  have tail: "tokenize (join (stringify_elements nt xs) @ rest) = Some (toks_elements xs @ ts)"
  proof (rule Cons.IH)
    fix y r t
    assume "y \<in> set xs" "delimited r" "tokenize r = Some t"
    then show "\<exists>s. stringify nt y = Some s \<and> tokenize (s @ r) = Some (toks y @ t)"
      using Cons.prems [of y r t] by simp
  qed
  show ?case
  proof (cases "xs = []")
    case True
    obtain s where "stringify nt x = Some s" "tokenize (s @ rest) = Some (toks x @ ts)"
      using Cons.prems [of x rest ts] assms(2,3) by auto
    with True show ?thesis by simp
  next
    case False
    let ?r = "CHR '','' # join (stringify_elements nt xs) @ rest"
    have "tokenize ?r = Some (Comma # toks_elements xs @ ts)"
      using tail by (simp add: lex_punct del: tokenize.simps)
    then obtain s where "stringify nt x = Some s"
      "tokenize (s @ ?r) = Some (toks x @ Comma # toks_elements xs @ ts)"
      using Cons.prems [of x ?r] delimited_punct(2) by auto
    with False show ?thesis
      by (simp add: join_Cons stringify_elements_Nil del: tokenize.simps)
  qed
qed

lemma stringify_members_Nil:
  "\<forall>(k, v) \<in> set fs. stringify nt v \<noteq> None \<Longrightarrow> stringify_members nt fs = [] \<longleftrightarrow> fs = []"
  by (cases fs) auto

lemma lex_members:
  assumes "\<And>k v rest ts. (k, v) \<in> set fs \<Longrightarrow> delimited rest \<Longrightarrow> tokenize rest = Some ts \<Longrightarrow>
             \<exists>s. stringify nt v = Some s \<and> tokenize (s @ rest) = Some (toks v @ ts)"
    and "delimited rest" and "tokenize rest = Some ts"
  shows "tokenize (join (stringify_members nt fs) @ rest) = Some (toks_members fs @ ts)"
  using assms(1)
proof (induction fs)
  case Nil
  then show ?case using assms(3) by simp
next
  case (Cons f fs)
  obtain k v where f: "f = (k, v)" by (cases f)
  have tail: "tokenize (join (stringify_members nt fs) @ rest) = Some (toks_members fs @ ts)"
  proof (rule Cons.IH)
    fix k' v' r t
    assume "(k', v') \<in> set fs" "delimited r" "tokenize r = Some t"
    then show "\<exists>s. stringify nt v' = Some s \<and> tokenize (s @ r) = Some (toks v' @ t)"
      using Cons.prems [of k' v' r t] by simp
  qed
  have "\<And>k' v'. (k', v') \<in> set fs \<Longrightarrow> stringify nt v' \<noteq> None"
  proof -
    fix k' v'
    assume "(k', v') \<in> set fs"
    then show "stringify nt v' \<noteq> None"
      using Cons.prems [of k' v' "[]" "[]"] by (auto simp: delimited_punct)
  qed
  then have some: "\<forall>(k, v) \<in> set fs. stringify nt v \<noteq> None"
    by blast
  show ?case
  proof (cases "fs = []")
    case True
    obtain s where "stringify nt v = Some s" "tokenize (s @ rest) = Some (toks v @ ts)"
      using Cons.prems [of k v rest ts] assms(2,3) f by auto
    with True f show ?thesis
      by (simp add: lex_quote lex_punct del: tokenize.simps)
  next
    case False
    let ?r = "CHR '','' # join (stringify_members nt fs) @ rest"
    have "tokenize ?r = Some (Comma # toks_members fs @ ts)"
      using tail by (simp add: lex_punct del: tokenize.simps)
    then obtain s where "stringify nt v = Some s"
      "tokenize (s @ ?r) = Some (toks v @ Comma # toks_members fs @ ts)"
      using Cons.prems [of k v ?r] delimited_punct(2) f by auto
    with False f show ?thesis
      by (simp add: join_Cons stringify_members_Nil [OF some] lex_quote lex_punct del: tokenize.simps)
  qed
qed

lemma lex_stringify:
  "json_value nt v \<Longrightarrow> delimited rest \<Longrightarrow> tokenize rest = Some ts \<Longrightarrow>
     \<exists>s. stringify nt v = Some s \<and> tokenize (s @ rest) = Some (toks v @ ts)"
proof (induction v arbitrary: rest ts)
  case JUndefined
  then show ?case by simp
next
  case JNull
  then show ?case using lex_literal(1) [of rest] by simp
next
  case (JBool b)
  then show ?case using lex_literal(2,3) [of rest] by simp
next
  case (JNum n)
  then show ?case using lex_number [of n rest] by simp
next
  case (JStr s)
  then show ?case by (simp add: lex_quote del: tokenize.simps)
next
  case (JArr xs)
  have "tokenize (CHR '']'' # rest) = Some (RBracket # ts)"
    using JArr.prems(3) by (simp add: lex_punct del: tokenize.simps)
  then have "tokenize (join (stringify_elements nt xs) @ CHR '']'' # rest) =
      Some (toks_elements xs @ RBracket # ts)"
    using JArr.IH JArr.prems(1) delimited_punct(3)
    by (intro lex_elements) (simp_all add: json_values_iff)
  then show ?case
    by (simp add: lex_punct del: tokenize.simps)
next
  case (JObj fs)
  have "tokenize (CHR ''}'' # rest) = Some (RBrace # ts)"
    using JObj.prems(3) by (simp add: lex_punct del: tokenize.simps)
  moreover have "\<And>k v rest ts. (k, v) \<in> set fs \<Longrightarrow> delimited rest \<Longrightarrow> tokenize rest = Some ts \<Longrightarrow>
             \<exists>s. stringify nt v = Some s \<and> tokenize (s @ rest) = Some (toks v @ ts)"
  proof -
    fix k v rest ts
    assume m: "(k, v) \<in> set fs" and r: "delimited rest" "tokenize rest = Some ts"
    have "json_value nt v"
      using JObj.prems(1) m by (auto simp: json_members_iff)
    moreover have "v \<in> Basic_BNFs.snds (k, v)" by simp
    ultimately show "\<exists>s. stringify nt v = Some s \<and> tokenize (s @ rest) = Some (toks v @ ts)"
      using JObj.IH [OF m] r by blast
  qed
  ultimately have "tokenize (join (stringify_members nt fs) @ CHR ''}'' # rest) =
      Some (toks_members fs @ RBrace # ts)"
    using delimited_punct(4) by (intro lex_members) simp_all
  then show ?case
    by (simp add: lex_punct del: tokenize.simps)
qed

text \<open>Every JSON value is read back from its text.\<close>

lemma json_roundtrip:
  assumes "json_value nt v"
  shows "\<exists>s. stringify nt v = Some s \<and> json_parse s = Some v"
proof -
  obtain s where s: "stringify nt v = Some s" "tokenize (s @ []) = Some (toks v @ [])"
    using lex_stringify [OF assms delimited_punct(1), of "[]"] by auto
  have "parse_value [] (toks v @ []) = parse_after v [] []"
    using assms by (rule parse_toks)
  with s show ?thesis
    by (simp add: json_parse_def)
qed

lemma stringify_object_nonempty: "stringify nt (JObj fs) = Some s \<Longrightarrow> s \<noteq> []"
  by auto

section \<open>Message classification\<close>

lemma field_cmd_object:
  "field m ''cmd'' = JStr c \<Longrightarrow> \<not> nullish m"
  by (cases m) simp_all

lemma switch_cmd_fired:
  "\<exists>evs. fired (switch_cmd m p) = fired p @ evs \<and>
     set evs \<subseteq> {SessionInit m, AuthSuccess m}"
  by (simp add: switch_cmd_def notify_def)

lemma switch_cmd_handlers:
  "onResponse (switch_cmd m p) = onResponse p"
  "onProtocolError (switch_cmd m p) = onProtocolError p"
  by (simp_all add: switch_cmd_def notify_def)

lemma handleMessage_fired:
  assumes "\<not> nullish m" "field m ''cmd'' \<noteq> JStr ''HB''"
  shows "\<exists>p'. handleMessage m p = Inr p' \<and>
     fired p' = fired (switch_cmd m p) @
       (if field m ''status'' = JStr ''ERR'' \<and> onProtocolError p then [ProtocolError m] else []) @
       (if onResponse p then [Response m] else [])"
  using assms
  by (simp add: handleMessage_def notify_def Let_def switch_cmd_handlers)

text \<open>
  C7 (as the code has it). A message that is \<^verbatim>\<open>null\<close> (or \<^verbatim>\<open>undefined\<close>) makes
  \<^verbatim>\<open>handleMessage\<close> throw a TypeError at its first step, the reading of \<^verbatim>\<open>cmd\<close>: no
  handler is called and the session is untouched. For every other message, whatever
  its type, \<^verbatim>\<open>handleMessage\<close> returns normally. A message whose \<^verbatim>\<open>cmd\<close> is \<^verbatim>\<open>HB\<close>
  calls the heartbeat handler (when one is registered) and nothing else: the session is
  untouched and no other handler runs. Every other message reaches the last step of
  the classification, where the response handler (when one is registered) is called
  exactly once, with the whole message, after the handlers of the earlier steps.
\<close>

theorem handleMessage_response_unconditional:
  "(nullish m \<longrightarrow> handleMessage m p = Inl TypeError) \<and>
   (\<not> nullish m \<longrightarrow>
     (\<exists>p'. handleMessage m p = Inr p' \<and>
       (if field m ''cmd'' = JStr ''HB''
        then p' = p\<lparr>fired := fired p @ (if onHeartbeat p then [Heartbeat m] else [])\<rparr>
        else \<exists>evs. fired p' = fired p @ evs @ (if onResponse p then [Response m] else []) \<and>
               (\<forall>n \<in> set evs. \<forall>x. n \<noteq> Response x \<and> n \<noteq> Heartbeat x))))"
proof (intro conjI impI)
  assume "nullish m"
  then show "handleMessage m p = Inl TypeError"
    by (simp add: handleMessage_def)
next
  assume nn: "\<not> nullish m"
  show "\<exists>p'. handleMessage m p = Inr p' \<and>
       (if field m ''cmd'' = JStr ''HB''
        then p' = p\<lparr>fired := fired p @ (if onHeartbeat p then [Heartbeat m] else [])\<rparr>
        else \<exists>evs. fired p' = fired p @ evs @ (if onResponse p then [Response m] else []) \<and>
               (\<forall>n \<in> set evs. \<forall>x. n \<noteq> Response x \<and> n \<noteq> Heartbeat x))"
  proof (cases "field m ''cmd'' = JStr ''HB''")
    case True
    then show ?thesis
      using nn by (simp add: handleMessage_def notify_def)
  next
    case False
    obtain evs where evs: "fired (switch_cmd m p) = fired p @ evs"
      "set evs \<subseteq> {SessionInit m, AuthSuccess m}"
      using switch_cmd_fired by blast
    define errs where "errs =
      (if field m ''status'' = JStr ''ERR'' \<and> onProtocolError p then [ProtocolError m] else [])"
    obtain p' where p': "handleMessage m p = Inr p'"
      "fired p' = fired (switch_cmd m p) @ errs @ (if onResponse p then [Response m] else [])"
      using handleMessage_fired [of m p] nn False unfolding errs_def by auto
    have "\<forall>n \<in> set (evs @ errs). \<forall>x. n \<noteq> Response x \<and> n \<noteq> Heartbeat x"
      using evs(2) by (auto simp: errs_def)
    moreover have "fired p' = fired p @ (evs @ errs) @ (if onResponse p then [Response m] else [])"
      using p'(2) evs(1) by simp
    ultimately have "\<exists>evs. fired p' = fired p @ evs @ (if onResponse p then [Response m] else []) \<and>
               (\<forall>n \<in> set evs. \<forall>x. n \<noteq> Response x \<and> n \<noteq> Heartbeat x)"
      by blast
    with p'(1) False show ?thesis by simp
  qed
qed

theorem handleMessage_response_unconditional_witness:
  "handleMessage (JObj [(''status'', JStr ''OK''), (''cmd'', JStr ''PONG'')])
       (new_WMTPProtocol\<lparr>onResponse := True\<rparr>)
     = Inr (new_WMTPProtocol\<lparr>onResponse := True,
          fired := [Response (JObj [(''status'', JStr ''OK''), (''cmd'', JStr ''PONG'')])]\<rparr>)
   \<and> handleMessage (JObj [(''cmd'', JStr ''HB''), (''ts'', JNum ''1732608000'')])
       (new_WMTPProtocol\<lparr>onHeartbeat := True, onResponse := True\<rparr>)
     = Inr (new_WMTPProtocol\<lparr>onHeartbeat := True, onResponse := True,
          fired := [Heartbeat (JObj [(''cmd'', JStr ''HB''), (''ts'', JNum ''1732608000'')])]\<rparr>)
   \<and> handleMessage (JStr ''PONG'') (new_WMTPProtocol\<lparr>onResponse := True\<rparr>)
     = Inr (new_WMTPProtocol\<lparr>onResponse := True, fired := [Response (JStr ''PONG'')]\<rparr>)
   \<and> handleMessage JUndefined (new_WMTPProtocol\<lparr>onResponse := True\<rparr>) = Inl TypeError"
  using handleMessage_response_unconditional
    [of "JObj [(''status'', JStr ''OK''), (''cmd'', JStr ''PONG'')]"
        "new_WMTPProtocol\<lparr>onResponse := True\<rparr>"]
    handleMessage_response_unconditional
    [of "JObj [(''cmd'', JStr ''HB''), (''ts'', JNum ''1732608000'')]"
        "new_WMTPProtocol\<lparr>onHeartbeat := True, onResponse := True\<rparr>"]
    handleMessage_response_unconditional
    [of "JStr ''PONG''" "new_WMTPProtocol\<lparr>onResponse := True\<rparr>"]
    handleMessage_response_unconditional
    [of JUndefined "new_WMTPProtocol\<lparr>onResponse := True\<rparr>"]
  by (simp add: handleMessage_def switch_cmd_def notify_def new_WMTPProtocol_def)

text \<open>
  The claim that the response notification fires for every inbound message fails for
  the message \<^verbatim>\<open>null\<close>. The splitter delivers it for the chunk \<^verbatim>\<open>null\<close>, which is
  JSON text, and \<^verbatim>\<open>handleMessage\<close> throws before any handler is called, with the
  response handler registered.
\<close>

theorem handleMessage_null_message:
  "parseMessages json_parse ''null'' = ([JNull], []) \<and>
   handleMessage JNull (new_WMTPProtocol\<lparr>onResponse := True\<rparr>) = Inl TypeError"
proof -
  have "parseMessages json_parse ''null'' = ([JNull], [])"
    by code_simp
  then show ?thesis
    by (simp add: handleMessage_def)
qed

text \<open>
  C2 (as the code has it). A \<^verbatim>\<open>SESSION_INIT\<close> message adopts the token of the message
  and sets \<^verbatim>\<open>authenticated\<close> to false; \<^verbatim>\<open>email\<close> and \<^verbatim>\<open>username\<close> keep the
  values they had. The session-init handler, when registered, is called exactly once,
  before the error and response handlers.
\<close>

theorem handleMessage_SESSION_INIT:
  assumes "field m ''cmd'' = JStr ''SESSION_INIT''"
  shows "\<exists>p'. handleMessage m p = Inr p' \<and>
     sessionToken p' = field m ''session_token'' \<and>
     authenticated p' = JBool False \<and>
     email p' = email p \<and>
     username p' = username p \<and>
     fired p' = fired p @
       (if onSessionInit p then [SessionInit m] else []) @
       (if field m ''status'' = JStr ''ERR'' \<and> onProtocolError p then [ProtocolError m] else []) @
       (if onResponse p then [Response m] else [])"
proof -
  have "\<not> nullish m"
    using assms by (rule field_cmd_object)
  then show ?thesis
    using assms by (simp add: handleMessage_def switch_cmd_def notify_def Let_def)
qed

theorem handleMessage_SESSION_INIT_witness:
  "handleMessage
     (JObj [(''status'', JStr ''OK''), (''cmd'', JStr ''SESSION_INIT''),
            (''session_token'', JStr ''X''), (''authenticated'', JBool False)])
     (new_WMTPProtocol\<lparr>onSessionInit := True\<rparr>)
   = Inr \<lparr> sessionToken = JStr ''X'', authenticated = JBool False,
           email = JNull, username = JNull,
           onSessionInit = True, onAuthSuccess = False, onAuthFail = False,
           onHeartbeat = False, onResponse = False, onProtocolError = False,
           fired = [SessionInit
             (JObj [(''status'', JStr ''OK''), (''cmd'', JStr ''SESSION_INIT''),
                    (''session_token'', JStr ''X''), (''authenticated'', JBool False)])] \<rparr>"
  using handleMessage_SESSION_INIT
    [of "JObj [(''status'', JStr ''OK''), (''cmd'', JStr ''SESSION_INIT''),
               (''session_token'', JStr ''X''), (''authenticated'', JBool False)]"
        "new_WMTPProtocol\<lparr>onSessionInit := True\<rparr>"]
  by (simp add: handleMessage_def switch_cmd_def notify_def new_WMTPProtocol_def)

text \<open>
  The claim that \<^verbatim>\<open>SESSION_INIT\<close> clears \<^verbatim>\<open>email\<close> and \<^verbatim>\<open>username\<close> fails on a
  session that was authenticated before: both fields survive the message.
\<close>

theorem handleMessage_SESSION_INIT_keeps_email:
  "handleMessage
     (JObj [(''status'', JStr ''OK''), (''cmd'', JStr ''SESSION_INIT''),
            (''session_token'', JStr ''X''), (''authenticated'', JBool False)])
     \<lparr> sessionToken = JStr ''T'', authenticated = JBool True,
       email = JStr ''a@b.com'', username = JStr ''a'',
       onSessionInit = False, onAuthSuccess = False, onAuthFail = False,
       onHeartbeat = False, onResponse = False, onProtocolError = False, fired = [] \<rparr>
   = Inr \<lparr> sessionToken = JStr ''X'', authenticated = JBool False,
           email = JStr ''a@b.com'', username = JStr ''a'',
           onSessionInit = False, onAuthSuccess = False, onAuthFail = False,
           onHeartbeat = False, onResponse = False, onProtocolError = False, fired = [] \<rparr>"
  by (simp add: handleMessage_def switch_cmd_def notify_def)

text \<open>
  C1 (as the code has it). \<^verbatim>\<open>handleMessage\<close> keeps the session invariant whenever the
  message that authenticates the session carries a token: a message with \<^verbatim>\<open>cmd\<close>
  \<^verbatim>\<open>AUTH_OK\<close>, or with \<^verbatim>\<open>cmd\<close> \<^verbatim>\<open>SESSION_RESUMED\<close> and \<^verbatim>\<open>authenticated\<close> true,
  has a non-empty string as its \<^verbatim>\<open>session_token\<close>. The handler adopts the fields of
  the message as they are and does not check this itself.
\<close>

theorem handleMessage_session_inv:
  assumes "session_inv p"
    and "handleMessage m p = Inr p'"
    and "field m ''cmd'' = JStr ''AUTH_OK'' \<or>
         (field m ''cmd'' = JStr ''SESSION_RESUMED'' \<and> field m ''authenticated'' = JBool True)
         \<Longrightarrow> token_present (field m ''session_token'')"
  shows "session_inv p'"
proof (cases "field m ''cmd'' = JStr ''HB''")
  case True
  with assms(1,2) show ?thesis
    by (auto simp: handleMessage_def notify_def session_inv_def split: if_splits)
next
  case False
  have sw: "session_inv (switch_cmd m p)"
    using assms(1,3) by (auto simp: switch_cmd_def notify_def session_inv_def)
  have "sessionToken p' = sessionToken (switch_cmd m p) \<and>
        authenticated p' = authenticated (switch_cmd m p)"
    using assms(2) False
    by (auto simp: handleMessage_def notify_def Let_def split: if_splits)
  with sw show ?thesis
    by (simp add: session_inv_def)
qed

theorem handleMessage_session_inv_witness:
  "session_inv new_WMTPProtocol \<and>
   session_inv \<lparr> sessionToken = JStr ''tok'', authenticated = JBool True,
       email = JStr ''user@example.com'', username = JStr ''user'',
       onSessionInit = False, onAuthSuccess = False, onAuthFail = False,
       onHeartbeat = False, onResponse = False, onProtocolError = False, fired = [] \<rparr>"
proof -
  let ?m = "JObj [(''status'', JStr ''OK''), (''cmd'', JStr ''AUTH_OK''),
     (''session_token'', JStr ''tok''), (''authenticated'', JBool True),
     (''email'', JStr ''user@example.com''), (''username'', JStr ''user'')]"
  let ?p' = "\<lparr> sessionToken = JStr ''tok'', authenticated = JBool True,
       email = JStr ''user@example.com'', username = JStr ''user'',
       onSessionInit = False, onAuthSuccess = False, onAuthFail = False,
       onHeartbeat = False, onResponse = False, onProtocolError = False, fired = [] \<rparr>"
  have inv: "session_inv new_WMTPProtocol"
    by (simp add: session_inv_def new_WMTPProtocol_def)
  have run: "handleMessage ?m new_WMTPProtocol = Inr ?p'"
    by (simp add: handleMessage_def switch_cmd_def notify_def new_WMTPProtocol_def)
  have tok: "token_present (field ?m ''session_token'')"
    by simp
  from handleMessage_session_inv [OF inv run tok] inv show ?thesis
    by simp
qed

text \<open>
  The invariant as claimed, for every message, fails: an \<^verbatim>\<open>AUTH_OK\<close> message without a
  \<^verbatim>\<open>session_token\<close> leaves the session authenticated with an undefined token.
\<close>

theorem handleMessage_breaks_session_inv:
  "session_inv new_WMTPProtocol \<and>
   handleMessage (JObj [(''status'', JStr ''OK''), (''cmd'', JStr ''AUTH_OK'')]) new_WMTPProtocol
     = Inr \<lparr> sessionToken = JUndefined, authenticated = JBool True,
             email = JUndefined, username = JUndefined,
             onSessionInit = False, onAuthSuccess = False, onAuthFail = False,
             onHeartbeat = False, onResponse = False, onProtocolError = False, fired = [] \<rparr> \<and>
   \<not> session_inv \<lparr> sessionToken = JUndefined, authenticated = JBool True,
             email = JUndefined, username = JUndefined,
             onSessionInit = False, onAuthSuccess = False, onAuthFail = False,
             onHeartbeat = False, onResponse = False, onProtocolError = False, fired = [] \<rparr>"
  by (simp add: handleMessage_def switch_cmd_def notify_def new_WMTPProtocol_def session_inv_def)

section \<open>Framing\<close>

text \<open>
  How \<open>split\<close> treats the piece it has collected, and what it does at the boundary
  between two texts that have no boundary inside.
\<close>

lemma split_nonempty: "split part s \<noteq> []"
  by (induction part s rule: split.induct) (auto split: option.splits)

lemma split_part:
  "split part s = (part @ hd (split [] s)) # tl (split [] s)"
proof (induction s arbitrary: part)
  case Nil
  then show ?case by simp
next
  case (Cons c cs)
  show ?case
  proof (cases "c = CHR ''}'' \<and> boundary cs \<noteq> None")
    case True
    then show ?thesis by auto
  next
    case False
    then have a: "split part (c # cs) = split (part @ [c]) cs"
      and b: "split [] (c # cs) = split [c] cs"
      by (auto split: option.splits)
    have "split (part @ [c]) cs = ((part @ [c]) @ hd (split [] cs)) # tl (split [] cs)"
      by (rule Cons.IH)
    moreover have "split [c] cs = ([c] @ hd (split [] cs)) # tl (split [] cs)"
      by (rule Cons.IH)
    ultimately show ?thesis
      using a b by simp
  qed
qed

lemma split_whole_part:
  "split part s = [part @ s] \<longleftrightarrow> split [] s = [s]"
proof -
  have "split [] s \<noteq> []" by (rule split_nonempty)
  then obtain x xs where "split [] s = x # xs"
    by (cases "split [] s") auto
  then show ?thesis
    using split_part [of part s] by auto
qed

lemma split_single:
  "split part s = [part @ s] \<longleftrightarrow> \<not> has_boundary s"
proof (induction s arbitrary: part)
  case Nil
  then show ?case by simp
next
  case (Cons c cs)
  show ?case
  proof (cases "c = CHR ''}'' \<and> boundary cs \<noteq> None")
    case True
    then obtain rest where "split part (c # cs) = part # split [] rest"
      by auto
    with True split_nonempty [of "[]" rest] show ?thesis
      by auto
  next
    case False
    then have "split part (c # cs) = split (part @ [c]) cs"
      by (auto split: option.splits)
    with False Cons.IH [of "part @ [c]"] show ?thesis
      by auto
  qed
qed

lemma boundary_ws:
  "list_all js_ws w \<Longrightarrow> boundary (w @ CHR ''{'' # b) = Some b"
  by (induction w) (simp_all add: boundary_def js_ws_def code_def)

lemma boundary_None_append:
  assumes "boundary (a @ ''}'') = None"
  shows "boundary (a @ ''}'' @ z) = None"
  using assms
proof (induction a)
  case Nil
  then show ?case by (simp add: boundary_def js_ws_def code_def)
next
  case (Cons c a)
  then show ?case
    by (cases "js_ws c") (auto simp: boundary_def split: if_splits)
qed

lemma split_at_boundary:
  assumes "split [] (a @ ''}'') = [a @ ''}'']" and "list_all js_ws w"
  shows "split part (a @ ''}'' @ w @ CHR ''{'' # b) = (part @ a) # split [] b"
  using assms(1)
proof (induction a arbitrary: part)
  case Nil
  then show ?case
    using boundary_ws [OF assms(2)] by simp
next
  case (Cons c a)
  have nb: "\<not> (c = CHR ''}'' \<and> boundary (a @ ''}'') \<noteq> None)"
  proof
    assume "c = CHR ''}'' \<and> boundary (a @ ''}'') \<noteq> None"
    then obtain rest where "split [] ((c # a) @ ''}'') = [] # split [] rest"
      by auto
    with Cons.prems split_nonempty [of "[]" rest] show False by simp
  qed
  then have "split [] ((c # a) @ ''}'') = split [c] (a @ ''}'')"
    by (auto split: option.splits)
  with Cons.prems have "split [c] (a @ ''}'') = [[c] @ (a @ ''}'')]"
    by simp
  then have whole: "split [] (a @ ''}'') = [a @ ''}'']"
    by (simp only: split_whole_part)
  from nb have "\<not> (c = CHR ''}'' \<and> boundary (a @ ''}'' @ w @ CHR ''{'' # b) \<noteq> None)"
    using boundary_None_append [of a "w @ CHR ''{'' # b"] by auto
  then have "split part ((c # a) @ ''}'' @ w @ CHR ''{'' # b) =
      split (part @ [c]) (a @ ''}'' @ w @ CHR ''{'' # b)"
    by (auto split: option.splits)
  also have "\<dots> = ((part @ [c]) @ a) # split [] b"
    using whole by (rule Cons.IH)
  finally show ?case by simp
qed

lemma trim_object_text:
  "trim (CHR ''{'' # r @ ''}'') = CHR ''{'' # r @ ''}''"
  by (simp add: trim_def js_ws_def code_def)

text \<open>
  C3 (as the code has it). Take two messages, each serialized as an object text that runs
  from its opening to its closing brace and in which the pattern of the split does not
  occur: no \<^verbatim>\<open>}\<close>, optional whitespace, \<^verbatim>\<open>{\<close> anywhere in it, in particular not
  inside a string value. Concatenated into one chunk, with or without whitespace between
  them, they are split at their common boundary, the braces are put back, and the
  splitter returns exactly the two parsed messages, in order, with no diagnostic. This
  holds for every parser.
\<close>

theorem parseMessages_two_objects:
  assumes "s1 = CHR ''{'' # r1 @ ''}''" and "s2 = CHR ''{'' # r2 @ ''}''"
    and "\<not> has_boundary s1" and "\<not> has_boundary s2"
    and "list_all js_ws w"
    and "JSON_parse s1 = Some m1" and "JSON_parse s2 = Some m2"
  shows "parseMessages JSON_parse (s1 @ w @ s2) = ([m1, m2], [])"
proof -
  have t: "trim (s1 @ w @ s2) = s1 @ w @ s2"
    using trim_object_text [of "r1 @ ''}'' @ w @ CHR ''{'' # r2"] assms(1,2) by simp
  have "split [] s1 = [[] @ s1]"
    using assms(3) split_single [of "[]" s1] by blast
  then have whole1: "split [] ((CHR ''{'' # r1) @ ''}'') = [(CHR ''{'' # r1) @ ''}'']"
    using assms(1) by simp
  have "\<not> has_boundary (r2 @ ''}'')"
    using assms(2,4) by simp
  then have whole2: "split [] (r2 @ ''}'') = [r2 @ ''}'']"
    using split_single [of "[]" "r2 @ ''}''"] by simp
  have "split [] (s1 @ w @ s2) =
      split [] ((CHR ''{'' # r1) @ ''}'' @ w @ CHR ''{'' # (r2 @ ''}''))"
    using assms(1,2) by simp
  also have "\<dots> = ([] @ (CHR ''{'' # r1)) # split [] (r2 @ ''}'')"
    using whole1 assms(5) by (rule split_at_boundary)
  finally have parts: "split [] (s1 @ w @ s2) = [CHR ''{'' # r1, r2 @ ''}'']"
    using whole2 by simp
  have run: "parseMessages JSON_parse (s1 @ w @ s2) =
      forEach_part JSON_parse (Suc (Suc 0)) 0 [CHR ''{'' # r1, r2 @ ''}''] ([], [])"
    by (simp add: parseMessages_def t parts Let_def del: forEach_part.simps)
  have p1: "JSON_parse (CHR ''{'' # r1 @ ''}'') = Some m1"
    and p2: "JSON_parse (CHR ''{'' # r2 @ ''}'') = Some m2"
    using assms(1,2,6,7) by simp_all
  show ?thesis
    unfolding run by (simp add: p1 p2 Let_def)
qed

theorem parseMessages_two_objects_witness:
  "parseMessages json_parse ''{\"status\":\"OK\",\"cmd\":\"PONG\"} {\"cmd\":\"HB\",\"ts\":1732608000}''
   = ([JObj [(''status'', JStr ''OK''), (''cmd'', JStr ''PONG'')],
       JObj [(''cmd'', JStr ''HB''), (''ts'', JNum ''1732608000'')]], [])"
proof -
  let ?s1 = "''{\"status\":\"OK\",\"cmd\":\"PONG\"}''"
  let ?s2 = "''{\"cmd\":\"HB\",\"ts\":1732608000}''"
  have a1: "?s1 = CHR ''{'' # ''\"status\":\"OK\",\"cmd\":\"PONG\"'' @ ''}''"
    and a2: "?s2 = CHR ''{'' # ''\"cmd\":\"HB\",\"ts\":1732608000'' @ ''}''"
    by simp_all
  have w1: "\<not> has_boundary ?s1" and w2: "\<not> has_boundary ?s2"
    by code_simp+
  have ws: "list_all js_ws '' ''"
    by (simp add: js_ws_def code_def)
  have p1: "json_parse ?s1 = Some (JObj [(''status'', JStr ''OK''), (''cmd'', JStr ''PONG'')])"
    and p2: "json_parse ?s2 = Some (JObj [(''cmd'', JStr ''HB''), (''ts'', JNum ''1732608000'')])"
    by code_simp+
  from parseMessages_two_objects [OF a1 a2 w1 w2 ws p1 p2] show ?thesis
    by simp
qed

text \<open>
  The claim as stated excludes only a literal \<^verbatim>\<open>}{\<close> inside a string value. A string
  value with whitespace between the two braces is split as well: the first message below
  is well-formed and contains no \<^verbatim>\<open>}{\<close>, yet of the two messages only the second is
  returned, with two diagnostics.
\<close>

theorem parseMessages_splits_inside_string:
  "json_parse ''{\"msg\":\"} {\"}'' = Some (JObj [(''msg'', JStr ''} {'')]) \<and>
   json_parse ''{}'' = Some (JObj []) \<and>
   has_boundary ''{\"msg\":\"} {\"}'' \<and>
   parseMessages json_parse (''{\"msg\":\"} {\"}'' @ ''{}'')
     = ([JObj []], [''{\"msg\":\"}'', ''{\"}''])"
  by code_simp

text \<open>
  C8. When the brace-boundary split of a chunk gives two substrings, one of which fails to
  parse while the other parses, the splitter returns exactly the one parsed message and
  one diagnostic, for the substring that failed: a failure does not stop the processing
  of the other substring, whichever comes first. The splitter has no failing outcome.
\<close>

theorem parseMessages_isolates_malformed:
  assumes "split [] (trim text) = [a, b]"
    and "JSON_parse (a @ ''}'') = None \<and> JSON_parse (CHR ''{'' # b) = Some m \<or>
         JSON_parse (a @ ''}'') = Some m \<and> JSON_parse (CHR ''{'' # b) = None"
  shows "parseMessages JSON_parse text =
     ([m], [if JSON_parse (a @ ''}'') = None then a @ ''}'' else CHR ''{'' # b])"
  using assms by (auto simp: parseMessages_def Let_def)

theorem parseMessages_isolates_malformed_witness:
  "parseMessages json_parse ''{bad}{\"cmd\":\"PING\"}''
     = ([JObj [(''cmd'', JStr ''PING'')]], [''{bad}'']) \<and>
   parseMessages json_parse ''{\"cmd\":\"PING\"}{bad}''
     = ([JObj [(''cmd'', JStr ''PING'')]], [''{bad}''])"
proof -
  have s1: "split [] (trim ''{bad}{\"cmd\":\"PING\"}'') = [''{bad'', ''\"cmd\":\"PING\"}'']"
    and s2: "split [] (trim ''{\"cmd\":\"PING\"}{bad}'') = [''{\"cmd\":\"PING\"'', ''bad}'']"
    by code_simp+
  have bad: "json_parse (''{bad'' @ ''}'') = None"
    "json_parse (CHR ''{'' # ''bad}'') = None"
    and good: "json_parse (CHR ''{'' # ''\"cmd\":\"PING\"}'') = Some (JObj [(''cmd'', JStr ''PING'')])"
    "json_parse (''{\"cmd\":\"PING\"'' @ ''}'') = Some (JObj [(''cmd'', JStr ''PING'')])"
    by code_simp+
  from parseMessages_isolates_malformed [OF s1, of json_parse "JObj [(''cmd'', JStr ''PING'')]"]
    parseMessages_isolates_malformed [OF s2, of json_parse "JObj [(''cmd'', JStr ''PING'')]"]
    bad good
  show ?thesis by simp
qed

section \<open>Connection lifecycle\<close>

text \<open>
  C4 (as the code has it). \<^verbatim>\<open>connect\<close> goes through five steps: the capability
  check, the decoding of the certificate hash, the construction of the WebTransport
  object, the handshake, the opening of the stream. Whichever step fails, the call
  re-signals the cause of that very step and calls the error handler with it when one
  is registered. It leaves \<^verbatim>\<open>connected\<close>, \<^verbatim>\<open>writer\<close> and \<^verbatim>\<open>reader\<close> as they were
  (from the disconnected state: not connected, no writer, no reader). The
  \<^verbatim>\<open>transport\<close> field is as before when the failure precedes the construction of the
  WebTransport object; once the object is constructed it stays in the field, so it is
  still there when the handshake or the opening of the stream fails. Nothing else in
  the object changes. When every step succeeds the call returns \<^verbatim>\<open>true\<close> with the
  three handles set, the transport connected, the teardown registered on the close of
  the connection, and the connect handler called.
\<close>

theorem connect_failure:
  "(\<not> WebTransport_defined pf \<longrightarrow>
      connect pf url t =
        (Inl CapabilityUnavailable,
         t\<lparr>signalled := signalled t @
              (if onError t then [TransportError CapabilityUnavailable] else [])\<rparr>)) \<and>
   (WebTransport_defined pf \<longrightarrow>
      (\<forall>e. connection_options pf t = Inl e \<longrightarrow>
         connect pf url t =
           (Inl e, t\<lparr>signalled := signalled t @ (if onError t then [TransportError e] else [])\<rparr>)) \<and>
      (\<forall>options. connection_options pf t = Inr options \<longrightarrow>
         (\<forall>e. new_WebTransport pf url options = Inl e \<longrightarrow>
            connect pf url t =
              (Inl e, t\<lparr>signalled := signalled t @ (if onError t then [TransportError e] else [])\<rparr>)) \<and>
         (\<forall>h. new_WebTransport pf url options = Inr h \<longrightarrow>
            (\<forall>e. transport_ready pf h = Some e \<longrightarrow>
               connect pf url t =
                 (Inl e, t\<lparr>transport := Some h,
                           signalled := signalled t @ (if onError t then [TransportError e] else [])\<rparr>)) \<and>
            (transport_ready pf h = None \<longrightarrow>
               (\<forall>e. createBidirectionalStream pf h = Inl e \<longrightarrow>
                  connect pf url t =
                    (Inl e, t\<lparr>transport := Some h,
                              signalled := signalled t @ (if onError t then [TransportError e] else [])\<rparr>)) \<and>
               (\<forall>w r. createBidirectionalStream pf h = Inr (w, r) \<longrightarrow>
                  connect pf url t =
                    (Inr True, t\<lparr>transport := Some h, writer := Some w, reader := Some r,
                                 connected := True, watched := h # watched t,
                                 signalled := signalled t @ (if onConnect t then [Connect] else [])\<rparr>))))))"
  by (simp add: connect_def connect_try_def emit_def)

theorem connect_failure_witness:
  "connect no_platform ''https://localhost:4433'' (new_WMTPTransport\<lparr>onError := True\<rparr>)
   = (Inl CapabilityUnavailable,
      \<lparr> transport = None, writer = None, reader = None, connected = False,
        onMessage = False, onConnect = False, onDisconnect = False, onError = True,
        certHash = None, signalled = [TransportError CapabilityUnavailable], written = [],
        watched = [] \<rparr>) \<and>
   connect stream_refused ''https://localhost:4433'' (new_WMTPTransport\<lparr>onError := True\<rparr>)
   = (Inl (Failure ''stream''),
      \<lparr> transport = Some 1, writer = None, reader = None, connected = False,
        onMessage = False, onConnect = False, onDisconnect = False, onError = True,
        certHash = None, signalled = [TransportError (Failure ''stream'')], written = [],
        watched = [] \<rparr>) \<and>
   connect atob_refused ''https://localhost:4433''
     (setCertificateHash ''%'' (new_WMTPTransport\<lparr>onError := True\<rparr>))
   = (Inl (Failure ''atob''),
      \<lparr> transport = None, writer = None, reader = None, connected = False,
        onMessage = False, onConnect = False, onDisconnect = False, onError = True,
        certHash = Some ''%'', signalled = [TransportError (Failure ''atob'')], written = [],
        watched = [] \<rparr>) \<and>
   connect constructor_refused ''localhost'' (new_WMTPTransport\<lparr>onError := True\<rparr>)
   = (Inl (Failure ''constructor''),
      \<lparr> transport = None, writer = None, reader = None, connected = False,
        onMessage = False, onConnect = False, onDisconnect = False, onError = True,
        certHash = None, signalled = [TransportError (Failure ''constructor'')], written = [],
        watched = [] \<rparr>) \<and>
   connect working_platform ''https://localhost:4433'' (new_WMTPTransport\<lparr>onConnect := True\<rparr>)
   = (Inr True,
      \<lparr> transport = Some 1, writer = Some 2, reader = Some 3, connected = True,
        onMessage = False, onConnect = True, onDisconnect = False, onError = False,
        certHash = None, signalled = [Connect], written = [], watched = [1] \<rparr>)"
  using connect_failure [of no_platform "''https://localhost:4433''"
      "new_WMTPTransport\<lparr>onError := True\<rparr>"]
    connect_failure [of stream_refused "''https://localhost:4433''"
      "new_WMTPTransport\<lparr>onError := True\<rparr>"]
    connect_failure [of atob_refused "''https://localhost:4433''"
      "setCertificateHash ''%'' (new_WMTPTransport\<lparr>onError := True\<rparr>)"]
    connect_failure [of constructor_refused "''localhost''"
      "new_WMTPTransport\<lparr>onError := True\<rparr>"]
    connect_failure [of working_platform "''https://localhost:4433''"
      "new_WMTPTransport\<lparr>onConnect := True\<rparr>"]
  by (simp add: no_platform_def stream_refused_def atob_refused_def constructor_refused_def
      working_platform_def connection_options_def base64ToArrayBuffer_def
      setCertificateHash_def new_WMTPTransport_def)

text \<open>
  The claim that no handle survives a failed \<^verbatim>\<open>connect\<close> fails when the handshake is
  refused: the transport object assigned before the handshake is still in the field.
\<close>

theorem connect_handshake_refused:
  "connect handshake_refused ''https://localhost:4433'' (new_WMTPTransport\<lparr>onError := True\<rparr>)
   = (Inl (Failure ''handshake''),
      \<lparr> transport = Some 1, writer = None, reader = None, connected = False,
        onMessage = False, onConnect = False, onDisconnect = False, onError = True,
        certHash = None, signalled = [TransportError (Failure ''handshake'')], written = [],
        watched = [] \<rparr>)"
  by (simp add: connect_def connect_try_def connection_options_def handshake_refused_def
      new_WMTPTransport_def emit_def)

lemma handleDisconnect_fields:
  "connected (handleDisconnect t) = False"
  "transport (handleDisconnect t) = None"
  "writer (handleDisconnect t) = None"
  "reader (handleDisconnect t) = None"
  "onDisconnect (handleDisconnect t) = onDisconnect t"
  "watched (handleDisconnect t) = watched t"
  "signalled (handleDisconnect t) = signalled t @ (if onDisconnect t then [Disconnect] else [])"
  by (simp_all add: handleDisconnect_def emit_def Let_def)

lemma handleDisconnect_again:
  "handleDisconnect (handleDisconnect t) =
     (handleDisconnect t)\<lparr>signalled := signalled (handleDisconnect t) @
        (if onDisconnect t then [Disconnect] else [])\<rparr>"
  by (simp add: handleDisconnect_def emit_def Let_def)

lemma handleDisconnect_funpow:
  "onDisconnect ((handleDisconnect ^^ n) t) = onDisconnect t"
  "watched ((handleDisconnect ^^ n) t) = watched t"
  "signalled ((handleDisconnect ^^ n) t) =
     signalled t @ replicate (if onDisconnect t then n else 0) Disconnect"
  by (induction n) (simp_all add: handleDisconnect_fields replicate_append_same)

lemma on_closed_fields:
  "onDisconnect (on_closed h t) = onDisconnect t"
  "watched (on_closed h t) = removeAll h (watched t)"
  "signalled (on_closed h t) =
     signalled t @ replicate (if onDisconnect t then count_list (watched t) h else 0) Disconnect"
  by (simp_all add: on_closed_def handleDisconnect_funpow)

lemma on_closed_transport:
  assumes "h \<in> set (watched t)"
  shows "transport (on_closed h t) = None"
proof -
  have "count_list (watched t) h \<noteq> 0"
    using assms by (simp add: count_list_0_iff)
  then obtain m where "count_list (watched t) h = Suc m"
    by (cases "count_list (watched t) h") simp_all
  then show ?thesis
    by (simp add: on_closed_def handleDisconnect_fields)
qed

lemma disconnect_result: "fst (disconnect pf t) = Inr ()"
  by (simp add: disconnect_def split: option.splits)

lemma disconnect_state:
  "snd (disconnect pf t) =
     handleDisconnect
       (case transport t of
          None \<Rightarrow> t
        | Some h \<Rightarrow> (case transport_close pf h of Some e \<Rightarrow> t | None \<Rightarrow> on_closed h t))"
  by (simp add: disconnect_def split: option.splits)

text \<open>
  C5 (as the code has it). \<^verbatim>\<open>disconnect\<close> never raises, and teardown is idempotent on
  the connection state: after the first call the transport is disconnected with no
  handle, and the second call changes nothing but the record of notifications. Each
  run of the teardown calls the disconnect handler (when one is registered). The first
  \<^verbatim>\<open>disconnect\<close> runs the teardown once itself, and once more for each registration
  that \<^verbatim>\<open>connect\<close> made on the close of the connection, when it closes that
  connection; the second runs it once more. A close of a connection that \<^verbatim>\<open>connect\<close>
  has registered on (a remote close) followed by \<^verbatim>\<open>disconnect\<close> runs it once for each
  registration and once more. So on a transport that \<^verbatim>\<open>connect\<close> has connected, one
  \<^verbatim>\<open>disconnect\<close> gives two disconnect notifications, two give three, and a remote
  close followed by \<^verbatim>\<open>disconnect\<close> gives two.
\<close>

theorem disconnect_twice:
  assumes "disconnect pf t = (r1, t1)" and "disconnect pf t1 = (r2, t2)"
  shows "r1 = Inr () \<and> r2 = Inr () \<and>
     connected t1 = False \<and> transport t1 = None \<and> writer t1 = None \<and> reader t1 = None \<and>
     signalled t1 = signalled t @
       replicate
         (if onDisconnect t then
            (case transport t of
               None \<Rightarrow> 0
             | Some h \<Rightarrow>
                 (case transport_close pf h of
                    Some e \<Rightarrow> 0
                  | None \<Rightarrow> count_list (watched t) h)) + 1
          else 0) Disconnect \<and>
     t2 = t1\<lparr>signalled := signalled t1 @ (if onDisconnect t then [Disconnect] else [])\<rparr> \<and>
     (\<forall>h \<in> set (watched t).
        fst (disconnect pf (on_closed h t)) = Inr () \<and>
        signalled (snd (disconnect pf (on_closed h t))) = signalled t @
          replicate (if onDisconnect t then count_list (watched t) h + 1 else 0) Disconnect)"
proof -
  let ?x = "case transport t of
          None \<Rightarrow> t
        | Some h \<Rightarrow> (case transport_close pf h of Some e \<Rightarrow> t | None \<Rightarrow> on_closed h t)"
  have r1: "r1 = Inr ()" and r2: "r2 = Inr ()"
    using assms disconnect_result [of pf t] disconnect_result [of pf t1] by simp_all
  have t1: "t1 = handleDisconnect ?x"
    using assms(1) disconnect_state [of pf t] by simp
  have on: "onDisconnect ?x = onDisconnect t"
    by (simp add: on_closed_fields split: option.splits)
  have t2: "t2 = handleDisconnect t1"
    using assms(2) disconnect_state [of pf t1] by (simp add: t1 handleDisconnect_fields)
  have s1: "signalled t1 = signalled t @
       replicate
         (if onDisconnect t then
            (case transport t of
               None \<Rightarrow> 0
             | Some h \<Rightarrow>
                 (case transport_close pf h of
                    Some e \<Rightarrow> 0
                  | None \<Rightarrow> count_list (watched t) h)) + 1
          else 0) Disconnect"
    unfolding t1
    by (simp add: handleDisconnect_fields on_closed_fields replicate_append_same
        split: option.splits)
  have remote: "\<forall>h \<in> set (watched t).
        fst (disconnect pf (on_closed h t)) = Inr () \<and>
        signalled (snd (disconnect pf (on_closed h t))) = signalled t @
          replicate (if onDisconnect t then count_list (watched t) h + 1 else 0) Disconnect"
  proof
    fix h
    assume "h \<in> set (watched t)"
    then have "transport (on_closed h t) = None"
      by (rule on_closed_transport)
    then show "fst (disconnect pf (on_closed h t)) = Inr () \<and>
        signalled (snd (disconnect pf (on_closed h t))) = signalled t @
          replicate (if onDisconnect t then count_list (watched t) h + 1 else 0) Disconnect"
      by (simp add: disconnect_result disconnect_state handleDisconnect_fields on_closed_fields
          replicate_append_same)
  qed
  have f1: "connected t1 = False" "transport t1 = None" "writer t1 = None" "reader t1 = None"
    unfolding t1 by (simp_all only: handleDisconnect_fields)
  have e2: "t2 = t1\<lparr>signalled := signalled t1 @ (if onDisconnect t then [Disconnect] else [])\<rparr>"
    unfolding t2 t1 using handleDisconnect_again [of ?x] by (simp only: on)
  show ?thesis
    by (intro conjI r1 r2 f1 s1 e2 remote)
qed

theorem disconnect_twice_witness:
  "disconnect working_platform
     \<lparr> transport = Some 1, writer = Some 2, reader = Some 3, connected = True,
       onMessage = False, onConnect = False, onDisconnect = True, onError = False,
       certHash = None, signalled = [], written = [], watched = [1] \<rparr>
   = (Inr (),
      \<lparr> transport = None, writer = None, reader = None, connected = False,
        onMessage = False, onConnect = False, onDisconnect = True, onError = False,
        certHash = None, signalled = [Disconnect, Disconnect], written = [], watched = [] \<rparr>) \<and>
   disconnect working_platform
     \<lparr> transport = None, writer = None, reader = None, connected = False,
       onMessage = False, onConnect = False, onDisconnect = True, onError = False,
       certHash = None, signalled = [Disconnect, Disconnect], written = [], watched = [] \<rparr>
   = (Inr (),
      \<lparr> transport = None, writer = None, reader = None, connected = False,
        onMessage = False, onConnect = False, onDisconnect = True, onError = False,
        certHash = None, signalled = [Disconnect, Disconnect, Disconnect], written = [],
        watched = [] \<rparr>) \<and>
   signalled (snd (disconnect working_platform (on_closed 1
     \<lparr> transport = Some 1, writer = Some 2, reader = Some 3, connected = True,
       onMessage = False, onConnect = False, onDisconnect = True, onError = False,
       certHash = None, signalled = [], written = [], watched = [1] \<rparr>)))
   = [Disconnect, Disconnect]"
proof -
  let ?t = "\<lparr> transport = Some 1, writer = Some 2, reader = Some 3, connected = True,
       onMessage = False, onConnect = False, onDisconnect = True, onError = False,
       certHash = None, signalled = [], written = [], watched = [1] \<rparr>"
  let ?t1 = "\<lparr> transport = None, writer = None, reader = None, connected = False,
       onMessage = False, onConnect = False, onDisconnect = True, onError = False,
       certHash = None, signalled = [Disconnect, Disconnect], written = [], watched = [] \<rparr>"
  have d1: "disconnect working_platform ?t = (Inr (), ?t1)"
    by (simp add: disconnect_def on_closed_def handleDisconnect_def emit_def Let_def
        working_platform_def)
  have d2: "disconnect working_platform ?t1 =
      (fst (disconnect working_platform ?t1), snd (disconnect working_platform ?t1))"
    by simp
  from disconnect_twice [OF d1 d2]
  have "fst (disconnect working_platform ?t1) = Inr ()"
    and "snd (disconnect working_platform ?t1) = ?t1\<lparr>signalled := [Disconnect, Disconnect, Disconnect]\<rparr>"
    and "signalled (snd (disconnect working_platform (on_closed 1 ?t))) = [Disconnect, Disconnect]"
    by (simp_all add: working_platform_def)
  with d1 show ?thesis
    by (simp add: prod_eq_iff)
qed

text \<open>
  The claim of exactly one disconnect notification fails on the transport that
  \<^verbatim>\<open>connect\<close> has connected, with a registered handler: the first \<^verbatim>\<open>disconnect\<close>
  notifies twice (the teardown registered on the close of the connection, then its
  own), and the second notifies again.
\<close>

theorem disconnect_twice_notifies_again:
  "signalled (snd (disconnect working_platform
     (snd (connect working_platform ''https://localhost:4433''
        (new_WMTPTransport\<lparr>onDisconnect := True\<rparr>)))))
   = [Disconnect, Disconnect] \<and>
   signalled (snd (disconnect working_platform (snd (disconnect working_platform
     (snd (connect working_platform ''https://localhost:4433''
        (new_WMTPTransport\<lparr>onDisconnect := True\<rparr>)))))))
   = [Disconnect, Disconnect, Disconnect]"
  by (simp add: connect_def connect_try_def connection_options_def disconnect_def on_closed_def
      handleDisconnect_def emit_def working_platform_def new_WMTPTransport_def Let_def)

section \<open>Sending\<close>

text \<open>
  C6 (as the code has it). \<^verbatim>\<open>logout\<close> clears the four session fields once the
  transport has sent the request, without waiting for the server's answer. When the send
  fails, the failure propagates to the caller before the fields are cleared, and the
  session is as it was.
\<close>

theorem logout_clears_after_send:
  assumes "logout pf (t, p) = (r, t', p')"
  shows "case r of
       Inr _ \<Rightarrow>
         send pf (JObj [(''cmd'', JStr ''LOGOUT''),
                        (''data'', JObj [(''token'', sessionToken p)])]) t = (Inr (), t') \<and>
         p' = p\<lparr>sessionToken := JNull, authenticated := JBool False,
                 email := JNull, username := JNull\<rparr>
     | Inl e \<Rightarrow>
         send pf (JObj [(''cmd'', JStr ''LOGOUT''),
                        (''data'', JObj [(''token'', sessionToken p)])]) t = (Inl e, t') \<and>
         p' = p"
  using assms
  by (auto simp: logout_def protocol_send_def split: prod.splits sum.splits)

theorem logout_clears_after_send_witness:
  "logout working_platform
     (\<lparr> transport = Some 1, writer = Some 2, reader = Some 3, connected = True,
        onMessage = False, onConnect = False, onDisconnect = False, onError = False,
        certHash = None, signalled = [], written = [], watched = [1] \<rparr>,
      \<lparr> sessionToken = JStr ''T'', authenticated = JBool True,
        email = JStr ''a@b.com'', username = JStr ''a'',
        onSessionInit = False, onAuthSuccess = False, onAuthFail = False,
        onHeartbeat = False, onResponse = False, onProtocolError = False, fired = [] \<rparr>)
   = (Inr (),
      \<lparr> transport = Some 1, writer = Some 2, reader = Some 3, connected = True,
        onMessage = False, onConnect = False, onDisconnect = False, onError = False,
        certHash = None, signalled = [],
        written = [TextEncoder_encode ''{\"cmd\":\"LOGOUT\",\"data\":{\"token\":\"T\"}}''],
        watched = [1] \<rparr>,
      \<lparr> sessionToken = JNull, authenticated = JBool False,
        email = JNull, username = JNull,
        onSessionInit = False, onAuthSuccess = False, onAuthFail = False,
        onHeartbeat = False, onResponse = False, onProtocolError = False, fired = [] \<rparr>)"
proof -
  let ?t = "\<lparr> transport = Some 1, writer = Some 2, reader = Some 3, connected = True,
        onMessage = False, onConnect = False, onDisconnect = False, onError = False,
        certHash = None, signalled = [], written = [], watched = [1] \<rparr>"
  let ?p = "\<lparr> sessionToken = JStr ''T'', authenticated = JBool True,
        email = JStr ''a@b.com'', username = JStr ''a'',
        onSessionInit = False, onAuthSuccess = False, onAuthFail = False,
        onHeartbeat = False, onResponse = False, onProtocolError = False, fired = [] \<rparr>"
  have js: "stringify (Number_text working_platform) (JObj [(''cmd'', JStr ''LOGOUT''), (''data'', JObj [(''token'', JStr ''T'')])])
      = Some ''{\"cmd\":\"LOGOUT\",\"data\":{\"token\":\"T\"}}''"
    by code_simp
  have sent: "send working_platform
      (JObj [(''cmd'', JStr ''LOGOUT''), (''data'', JObj [(''token'', sessionToken ?p)])]) ?t
      = (Inr (), ?t\<lparr>written := [TextEncoder_encode ''{\"cmd\":\"LOGOUT\",\"data\":{\"token\":\"T\"}}'']\<rparr>)"
    using js by (simp add: send_def working_platform_def del: stringify.simps)
  have run: "logout working_platform (?t, ?p) =
      (Inr (), snd (logout working_platform (?t, ?p)))"
    using sent by (simp add: logout_def protocol_send_def del: stringify.simps)
  obtain t' p' where s: "snd (logout working_platform (?t, ?p)) = (t', p')"
    by (cases "snd (logout working_platform (?t, ?p))")
  from logout_clears_after_send [OF run [unfolded s]] sent have "t' = ?t\<lparr>written := [TextEncoder_encode ''{\"cmd\":\"LOGOUT\",\"data\":{\"token\":\"T\"}}'']\<rparr>"
    and "p' = ?p\<lparr>sessionToken := JNull, authenticated := JBool False, email := JNull, username := JNull\<rparr>"
    by simp_all
  with run s show ?thesis
    by simp
qed

text \<open>
  The claim that \<^verbatim>\<open>logout\<close> clears the session also when the send fails does not
  hold: on a transport that is not connected the call raises and the session is kept.
\<close>

theorem logout_not_connected_keeps_session:
  "logout working_platform
     (new_WMTPTransport,
      \<lparr> sessionToken = JStr ''T'', authenticated = JBool True,
        email = JStr ''a@b.com'', username = JStr ''a'',
        onSessionInit = False, onAuthSuccess = False, onAuthFail = False,
        onHeartbeat = False, onResponse = False, onProtocolError = False, fired = [] \<rparr>)
   = (Inl NotConnected,
      (new_WMTPTransport,
       \<lparr> sessionToken = JStr ''T'', authenticated = JBool True,
         email = JStr ''a@b.com'', username = JStr ''a'',
         onSessionInit = False, onAuthSuccess = False, onAuthFail = False,
         onHeartbeat = False, onResponse = False, onProtocolError = False, fired = [] \<rparr>))"
  by (simp add: logout_def protocol_send_def send_def new_WMTPTransport_def)

text \<open>
  C10. On a connected transport whose write succeeds, \<^verbatim>\<open>send\<close> of a string writes
  the UTF-8 encoding of that very string, whatever the string is (it need not be JSON);
  any other value is written as the encoding of its \<^verbatim>\<open>JSON.stringify\<close> text.
\<close>

theorem send_string_verbatim:
  assumes "connected t" and "writer t = Some w"
    and "writer_write pf w (TextEncoder_encode s) = None"
  shows "send pf (JStr s) t = (Inr (), t\<lparr>written := written t @ [TextEncoder_encode s]\<rparr>) \<and>
     (\<forall>data m. (\<forall>x. data \<noteq> JStr x) \<and> stringify (Number_text pf) data = Some m \<and>
         writer_write pf w (TextEncoder_encode m) = None \<longrightarrow>
         send pf data t = (Inr (), t\<lparr>written := written t @ [TextEncoder_encode m]\<rparr>))"
  using assms
  by (auto simp: send_def Let_def split: jsval.splits)

theorem send_string_verbatim_witness:
  "json_parse ''PING'' = None \<and>
   send working_platform (JStr ''PING'')
     \<lparr> transport = Some 1, writer = Some 2, reader = Some 3, connected = True,
       onMessage = False, onConnect = False, onDisconnect = False, onError = False,
       certHash = None, signalled = [], written = [], watched = [1] \<rparr>
   = (Inr (),
      \<lparr> transport = Some 1, writer = Some 2, reader = Some 3, connected = True,
        onMessage = False, onConnect = False, onDisconnect = False, onError = False,
        certHash = None, signalled = [], written = [[0x50, 0x49, 0x4E, 0x47]], watched = [1] \<rparr>)"
proof -
  let ?t = "\<lparr> transport = Some 1, writer = Some 2, reader = Some 3, connected = True,
       onMessage = False, onConnect = False, onDisconnect = False, onError = False,
       certHash = None, signalled = [], written = [], watched = [1] \<rparr>"
  have enc: "TextEncoder_encode ''PING'' = [0x50, 0x49, 0x4E, 0x47]"
    by (simp add: TextEncoder_encode_def utf8_char_def code_def)
  have c: "connected ?t" and w: "writer ?t = Some 2"
    by simp_all
  have ok: "writer_write working_platform 2 (TextEncoder_encode ''PING'') = None"
    by (simp add: working_platform_def)
  have np: "json_parse ''PING'' = None"
    by (simp add: json_parse_def json_ws_def digit_def code_def)
  from send_string_verbatim [OF c w ok] enc np show ?thesis
    by simp
qed

section \<open>Persistence\<close>

text \<open>
  C9 (as the code has it). When the token is present (truthy) and the token, the email
  and the username are values that \<^verbatim>\<open>JSON.stringify\<close> and \<^verbatim>\<open>JSON.parse\<close> preserve
  (a string, \<^verbatim>\<open>null\<close>, a boolean, a finite number in the form in which the platform
  prints it, an array or an object of such values: not \<^verbatim>\<open>undefined\<close>, and no number
  that is written back as another text), \<^verbatim>\<open>saveSession\<close> followed by
  \<^verbatim>\<open>loadSession\<close> returns the record with exactly the three fields \<^verbatim>\<open>token\<close>,
  \<^verbatim>\<open>email\<close>, \<^verbatim>\<open>username\<close> and the saved values. Without a token (a falsy one:
  \<^verbatim>\<open>null\<close>, \<^verbatim>\<open>undefined\<close>, the empty string, \<^verbatim>\<open>false\<close>, a number that is zero),
  \<^verbatim>\<open>saveSession\<close> leaves the store as it is.
\<close>

theorem saveSession_loadSession:
  "(truthy (Number_is_zero pf) (sessionToken p) \<and> json_value (Number_text pf) (sessionToken p) \<and>
    json_value (Number_text pf) (email p) \<and> json_value (Number_text pf) (username p) \<longrightarrow>
      loadSession (saveSession pf p store) =
        JObj [(''token'', sessionToken p), (''email'', email p), (''username'', username p)]) \<and>
   (\<not> truthy (Number_is_zero pf) (sessionToken p) \<longrightarrow> saveSession pf p store = store)"
proof (intro conjI impI)
  let ?o = "JObj [(''token'', sessionToken p), (''email'', email p), (''username'', username p)]"
  assume a: "truthy (Number_is_zero pf) (sessionToken p) \<and>
    json_value (Number_text pf) (sessionToken p) \<and>
    json_value (Number_text pf) (email p) \<and> json_value (Number_text pf) (username p)"
  then have "json_value (Number_text pf) ?o" by simp
  then obtain s where s: "stringify (Number_text pf) ?o = Some s" "json_parse s = Some ?o"
    using json_roundtrip by blast
  have "s \<noteq> []"
    using s(1) by (rule stringify_object_nonempty)
  with a s show "loadSession (saveSession pf p store) = ?o"
    by (simp add: saveSession_def loadSession_def del: stringify.simps)
next
  assume "\<not> truthy (Number_is_zero pf) (sessionToken p)"
  then show "saveSession pf p store = store"
    by (simp add: saveSession_def)
qed

theorem saveSession_loadSession_witness:
  "loadSession (saveSession working_platform
     \<lparr> sessionToken = JStr ''T'', authenticated = JBool True,
       email = JStr ''a@b.com'', username = JStr ''a'',
       onSessionInit = False, onAuthSuccess = False, onAuthFail = False,
       onHeartbeat = False, onResponse = False, onProtocolError = False, fired = [] \<rparr>
     empty_store)
   = JObj [(''token'', JStr ''T''), (''email'', JStr ''a@b.com''), (''username'', JStr ''a'')] \<and>
   saveSession working_platform new_WMTPProtocol empty_store = empty_store"
  using saveSession_loadSession [of working_platform
     "\<lparr> sessionToken = JStr ''T'', authenticated = JBool True,
       email = JStr ''a@b.com'', username = JStr ''a'',
       onSessionInit = False, onAuthSuccess = False, onAuthFail = False,
       onHeartbeat = False, onResponse = False, onProtocolError = False, fired = [] \<rparr>" empty_store]
    saveSession_loadSession [of working_platform new_WMTPProtocol empty_store]
  by (simp add: new_WMTPProtocol_def)

text \<open>
  The round trip as claimed, for every session with a token, fails when a field is
  \<^verbatim>\<open>undefined\<close>: \<^verbatim>\<open>JSON.stringify\<close> leaves such a property out. An \<^verbatim>\<open>AUTH_OK\<close>
  message without \<^verbatim>\<open>email\<close> and \<^verbatim>\<open>username\<close> gives such a session, and the record
  loaded back has the token as its only field.
\<close>

theorem saveSession_drops_undefined_fields:
  "handleMessage
     (JObj [(''status'', JStr ''OK''), (''cmd'', JStr ''AUTH_OK''), (''session_token'', JStr ''T'')])
     new_WMTPProtocol
   = Inr \<lparr> sessionToken = JStr ''T'', authenticated = JBool True,
           email = JUndefined, username = JUndefined,
           onSessionInit = False, onAuthSuccess = False, onAuthFail = False,
           onHeartbeat = False, onResponse = False, onProtocolError = False, fired = [] \<rparr> \<and>
   loadSession (saveSession working_platform
     \<lparr> sessionToken = JStr ''T'', authenticated = JBool True,
       email = JUndefined, username = JUndefined,
       onSessionInit = False, onAuthSuccess = False, onAuthFail = False,
       onHeartbeat = False, onResponse = False, onProtocolError = False, fired = [] \<rparr>
     empty_store)
   = JObj [(''token'', JStr ''T'')]"
proof -
  have "loadSession (saveSession working_platform
     \<lparr> sessionToken = JStr ''T'', authenticated = JBool True,
       email = JUndefined, username = JUndefined,
       onSessionInit = False, onAuthSuccess = False, onAuthFail = False,
       onHeartbeat = False, onResponse = False, onProtocolError = False, fired = [] \<rparr>
     empty_store)
   = JObj [(''token'', JStr ''T'')]"
    by code_simp
  then show ?thesis
    by (simp add: handleMessage_def switch_cmd_def notify_def new_WMTPProtocol_def)
qed

text \<open>
  Numbers fall outside the round trip in two more ways. A token that is a number so
  small that it is zero (\<^verbatim>\<open>1e-400\<close>) is falsy, and nothing is written; an email that
  is a number too large for a double (\<^verbatim>\<open>1e400\<close>, read as \<^verbatim>\<open>Infinity\<close>) is written
  as \<^verbatim>\<open>null\<close> and loaded back as \<^verbatim>\<open>null\<close>.
\<close>

lemma saveSession_zero_token:
  "saveSession working_platform
     \<lparr> sessionToken = JNum ''1e-400'', authenticated = JBool False,
       email = JNull, username = JNull,
       onSessionInit = False, onAuthSuccess = False, onAuthFail = False,
       onHeartbeat = False, onResponse = False, onProtocolError = False, fired = [] \<rparr>
     empty_store
   = empty_store"
  by (simp add: saveSession_def working_platform_def sample_is_zero_def)

lemma saveSession_overflow_email:
  "loadSession (saveSession working_platform
     \<lparr> sessionToken = JStr ''T'', authenticated = JBool True,
       email = JNum ''1e400'', username = JStr ''a'',
       onSessionInit = False, onAuthSuccess = False, onAuthFail = False,
       onHeartbeat = False, onResponse = False, onProtocolError = False, fired = [] \<rparr>
     empty_store)
   = JObj [(''token'', JStr ''T''), (''email'', JNull), (''username'', JStr ''a'')]"
  by code_simp

end
